theory Spec2Isabelle
  imports Main
begin

section \<open>Strings, thrown values\<close>

text \<open>
  A JavaScript string is a sequence of UTF-16 code units. A code unit is modelled as a
  natural number (below 65536 for every string the program can hold); the functions
  below are defined on all lists, so a statement about every list covers every string.
  \<open>js\<close> writes an ASCII literal as such a string.
\<close>

type_synonym jschar = nat
type_synonym jsstring = "jschar list"

definition js :: "string \<Rightarrow> jsstring" where
  "js s = map of_char s"

text \<open>
  The values the program throws: \<open>new Error(msg)\<close>, the built-in error kinds raised by
  the platform functions used in the source, and any other value rejected by an external
  call (numbered, so that two failures can be told apart).
\<close>

datatype error =
    Error jsstring
  | URIError
  | InvalidCharacterError
  | SyntaxError
  | Rejected nat

text \<open>
  An optional string (\<open>undefined\<close> or \<open>null\<close> being \<open>None\<close>) is truthy when it is
  present and not empty.
\<close>

fun truthy :: "jsstring option \<Rightarrow> bool" where
  "truthy None = False"
| "truthy (Some s) = (s \<noteq> [])"

section \<open>String methods and global regular-expression replacement\<close>

text \<open>
  The white space of \<open>String.prototype.trim\<close> and of the class \<open>\s\<close>: the WhiteSpace
  and LineTerminator code points of ECMAScript. The class \<open>.\<close> (without the \<open>s\<close> flag)
  excludes the line terminators.
\<close>

definition is_space :: "jschar \<Rightarrow> bool" where
  "is_space c =
     (c \<in> {0x9, 0xA, 0xB, 0xC, 0xD, 0x20, 0xA0, 0x1680, 0x2028, 0x2029, 0x202F, 0x205F, 0x3000, 0xFEFF}
      \<or> (0x2000 \<le> c \<and> c \<le> 0x200A))"

definition is_line_terminator :: "jschar \<Rightarrow> bool" where
  "is_line_terminator c = (c \<in> {0xA, 0xD, 0x2028, 0x2029})"

definition trimStart :: "jsstring \<Rightarrow> jsstring" where
  "trimStart s = dropWhile is_space s"

definition trimEnd :: "jsstring \<Rightarrow> jsstring" where
  "trimEnd s = rev (dropWhile is_space (rev s))"

definition trim :: "jsstring \<Rightarrow> jsstring" where
  "trim s = trimEnd (trimStart s)"

fun strip_prefix :: "jsstring \<Rightarrow> jsstring \<Rightarrow> jsstring option" where
  "strip_prefix [] s = Some s"
| "strip_prefix (p # ps) [] = None"
| "strip_prefix (p # ps) (c # cs) = (if p = c then strip_prefix ps cs else None)"

text \<open>
  \<open>str.replace(re, f)\<close> with a global \<open>re\<close> scans the string from the left. At each
  position it tries to match there; on a match it emits \<open>f\<close>'s result and goes on after
  the match, otherwise it emits the character and moves one position on. A regular
  expression is given by its matcher at a position: the length of the match found at the
  start of the remaining text (at least 1 for every expression of the source) and the
  replacement. \<open>skip\<close> counts the characters of the current match still to pass over.
\<close>

fun replace_from :: "(jsstring \<Rightarrow> (nat \<times> jsstring) option) \<Rightarrow> nat \<Rightarrow> jsstring \<Rightarrow> jsstring" where
  "replace_from m skip [] = []"
| "replace_from m (Suc skip) (c # cs) = replace_from m skip cs"
| "replace_from m 0 (c # cs) =
     (case m (c # cs) of
        None \<Rightarrow> c # replace_from m 0 cs
      | Some (len, out) \<Rightarrow> out @ replace_from m (len - 1) cs)"

definition replace_all :: "(jsstring \<Rightarrow> (nat \<times> jsstring) option) \<Rightarrow> jsstring \<Rightarrow> jsstring" where
  "replace_all m s = replace_from m 0 s"

section \<open>Retry wrapper (withRetry)\<close>

text \<open>
  \<^verbatim>\<open>
  async function withRetry<T>(fn, retries = 3, delay = 1000) {
    for (let i = 0; i < retries; i++) {
      try { return await fn(); }
      catch (e) { if (i === retries - 1) throw e;
                  await new Promise(res => setTimeout(res, delay * (i + 1))); } }
    throw new Error("Retry logic failed"); }
  \<close>
  The operation \<open>fn\<close> has effects, so it is a function of the state of the world it acts
  on, returning what it threw or returned and the new state. The wrapper's own effects
  are recorded in a log: how many times it invoked \<open>fn\<close> and the delays it waited, in
  order.
\<close>

record retry_log =
  invocations :: nat
  waits :: "int list"

function withRetry_loop ::
  "('s \<Rightarrow> (error + 'a) \<times> 's) \<Rightarrow> int \<Rightarrow> int \<Rightarrow> int \<Rightarrow> 's \<Rightarrow> retry_log \<Rightarrow> (error + 'a) \<times> 's \<times> retry_log"
where
  "withRetry_loop fn retries delay i s lg =
     (if i < retries then
        (case fn s of
           (Inr v, s') \<Rightarrow> (Inr v, s', lg\<lparr>invocations := Suc (invocations lg)\<rparr>)
         | (Inl e, s') \<Rightarrow>
             if i = retries - 1 then (Inl e, s', lg\<lparr>invocations := Suc (invocations lg)\<rparr>)
             else withRetry_loop fn retries delay (i + 1) s'
                    (lg\<lparr>invocations := Suc (invocations lg), waits := waits lg @ [delay * (i + 1)]\<rparr>))
      else (Inl (Error (js ''Retry logic failed'')), s, lg))"
  by pat_completeness auto
termination
  by (relation "measure (\<lambda>(fn, retries, delay, i, s, lg). nat (retries - i))") auto

declare withRetry_loop.simps [simp del]

definition withRetry ::
  "('s \<Rightarrow> (error + 'a) \<times> 's) \<Rightarrow> int \<Rightarrow> int \<Rightarrow> 's \<Rightarrow> (error + 'a) \<times> 's \<times> retry_log"
where
  "withRetry fn retries delay s = withRetry_loop fn retries delay 0 s \<lparr>invocations = 0, waits = []\<rparr>"

definition withRetry_default :: "('s \<Rightarrow> (error + 'a) \<times> 's) \<Rightarrow> 's \<Rightarrow> (error + 'a) \<times> 's \<times> retry_log" where
  \<comment> \<open>the call with both defaults, as at every call site of the source\<close>
  "withRetry_default fn s = withRetry fn 3 1000 s"



section \<open>Image resolution (generateAndStoreImages)\<close>

record ImageGenerationTask =
  key :: jsstring
  prompt :: jsstring
  overlayText :: "jsstring option"

text \<open>
  \<open>getGenAIClient\<close> reads the global \<open>apiKey\<close> and throws when it is null or empty
  (\<open>if (!key) throw new Error("API\<dots>")\<close>, the message being Japanese text). The client
  it builds is represented by the key it was built from.
\<close>

definition api_key_missing :: jsstring where
  "api_key_missing =
     [0x41, 0x50, 0x49, 0x30AD, 0x30FC, 0x304C, 0x8A2D, 0x5B9A, 0x3055, 0x308C, 0x3066,
      0x3044, 0x307E, 0x305B, 0x3093, 0x3002]"

definition getGenAIClient :: "jsstring option \<Rightarrow> error + jsstring" where
  "getGenAIClient apiKey =
     (case apiKey of
        None \<Rightarrow> Inl (Error api_key_missing)
      | Some k \<Rightarrow> if k = [] then Inl (Error api_key_missing) else Inr k)"

text \<open>
  The image service is outside the program. It is a parameter: what the service answers
  to the call number \<open>c\<close> (counting every call made so far) with a given prompt, either a
  rejection or the payloads (\<open>imageBytes\<close>) of \<open>response.generatedImages\<close>, the empty list
  standing for a missing or empty \<open>generatedImages\<close>; every image the service returns is
  taken to carry its bytes. The state of the world is the number of calls made.
\<close>

type_synonym image_api = "nat \<Rightarrow> jsstring \<Rightarrow> error + jsstring list"

definition fullPrompt :: "ImageGenerationTask \<Rightarrow> jsstring" where
  \<comment> \<open>\<open>task.overlayText ? `${task.prompt}, with the text "${task.overlayText}" clearly visible` : task.prompt\<close>\<close>
  "fullPrompt task =
     (if truthy (overlayText task)
      then prompt task @ js '', with the text '' @ [0x22] @ the (overlayText task) @ [0x22] @
           js '' clearly visible''
      else prompt task)"

definition generateImages :: "image_api \<Rightarrow> jsstring \<Rightarrow> nat \<Rightarrow> (error + jsstring list) \<times> nat" where
  \<comment> \<open>\<open>() => ai.models.generateImages({ ..., prompt: fullPrompt, ... })\<close>\<close>
  "generateImages api p c = (api c p, Suc c)"

definition error_sentinel :: jsstring where
  "error_sentinel = js ''error''"

definition try_task :: "image_api \<Rightarrow> ImageGenerationTask \<Rightarrow> nat \<Rightarrow> (error + jsstring) \<times> nat" where
  \<comment> \<open>the \<open>try\<close> block of one iteration: the value it would store, or what it throws\<close>
  "try_task api task c =
     (case withRetry_default (generateImages api (fullPrompt task)) c of
        (Inl e, c', lg) \<Rightarrow> (Inl e, c')
      | (Inr generatedImages, c', lg) \<Rightarrow>
          (case generatedImages of
             [] \<Rightarrow> (Inl (Error (js ''No images were generated by the API.'')), c')
           | imageBytes # others \<Rightarrow> (Inr imageBytes, c')))"

definition run_task :: "image_api \<Rightarrow> ImageGenerationTask \<Rightarrow> nat \<Rightarrow> jsstring \<times> nat" where
  \<comment> \<open>one iteration with its \<open>catch\<close>: the value stored under \<open>task.key\<close>\<close>
  "run_task api task c =
     (case try_task api task c of
        (Inr imageBytes, c') \<Rightarrow> (imageBytes, c')
      | (Inl e, c') \<Rightarrow> (error_sentinel, c'))"

text \<open>
  \<open>results\<close> is a plain object (\<open>{}\<close>) and the values assigned are strings. The assignment
  \<open>results[k] = v\<close> creates or overwrites the own property \<open>k\<close>, except for the name
  \<open>__proto__\<close>: that is the accessor inherited from \<open>Object.prototype\<close>, whose setter
  ignores a value that is not an object, so nothing is stored.
\<close>

definition set_property :: "jsstring \<Rightarrow> jsstring \<Rightarrow> (jsstring \<rightharpoonup> jsstring) \<Rightarrow> (jsstring \<rightharpoonup> jsstring)" where
  "set_property k v obj = (if k = js ''__proto__'' then obj else obj(k \<mapsto> v))"

fun tasks_loop ::
  "image_api \<Rightarrow> ImageGenerationTask list \<Rightarrow> (jsstring \<rightharpoonup> jsstring) \<Rightarrow> nat \<Rightarrow> (jsstring \<rightharpoonup> jsstring) \<times> nat"
where
  "tasks_loop api [] results c = (results, c)"
| "tasks_loop api (task # tasks) results c =
     (case run_task api task c of (v, c') \<Rightarrow> tasks_loop api tasks (set_property (key task) v results) c')"

definition generateAndStoreImages ::
  "image_api \<Rightarrow> jsstring option \<Rightarrow> ImageGenerationTask list \<Rightarrow> nat \<Rightarrow> error + (jsstring \<rightharpoonup> jsstring) \<times> nat"
where
  "generateAndStoreImages api apiKey tasks c =
     (case getGenAIClient apiKey of
        Inl e \<Rightarrow> Inl e
      | Inr ai \<Rightarrow> Inr (tasks_loop api tasks Map.empty c))"

text \<open>
  For the statements, in the specification's words. A task run when \<open>c\<close> calls have been
  made owns the calls \<open>c\<close>, \<open>c + 1\<close> and \<open>c + 2\<close>: \<open>first_answer\<close> is the answer of the first
  of them that the service does not reject, if there is one, with the number of calls
  made. What is stored for the task is the first payload of that answer, and the
  sentinel when there is no answer or the answer holds no image. \<open>calls_of\<close> adds up the
  calls a list of tasks makes, each task starting where the one before it stopped.
\<close>

definition first_answer :: "image_api \<Rightarrow> jsstring \<Rightarrow> nat \<Rightarrow> jsstring list option \<times> nat" where
  "first_answer api p c =
     (case api c p of
        Inr images \<Rightarrow> (Some images, 1)
      | Inl e0 \<Rightarrow>
          (case api (c + 1) p of
             Inr images \<Rightarrow> (Some images, 2)
           | Inl e1 \<Rightarrow>
               (case api (c + 2) p of
                  Inr images \<Rightarrow> (Some images, 3)
                | Inl e2 \<Rightarrow> (None, 3))))"

definition stored_value :: "jsstring list option \<Rightarrow> jsstring" where
  "stored_value answer =
     (case answer of
        None \<Rightarrow> js ''error''
      | Some [] \<Rightarrow> js ''error''
      | Some (imageBytes # others) \<Rightarrow> imageBytes)"

fun calls_of :: "image_api \<Rightarrow> ImageGenerationTask list \<Rightarrow> nat \<Rightarrow> nat" where
  "calls_of api [] c = 0"
| "calls_of api (task # tasks) c =
     snd (first_answer api (fullPrompt task) c) +
     calls_of api tasks (c + snd (first_answer api (fullPrompt task) c))"

section \<open>Reference list of the assembled article (finalizeArticle)\<close>

text \<open>
  A grounding chunk as the generation API returns it: \<open>web\<close> may be missing, and so may
  its \<open>uri\<close> and \<open>title\<close>.
\<close>

record web_source =
  web_uri :: "jsstring option"
  web_title :: "jsstring option"

record grounding_chunk =
  web :: "web_source option"

record reference =
  uri :: jsstring
  title :: jsstring

definition has_web_uri :: "grounding_chunk \<Rightarrow> bool" where
  \<comment> \<open>\<open>chunk => chunk.web && chunk.web.uri\<close>\<close>
  "has_web_uri chunk = (case web chunk of None \<Rightarrow> False | Some w \<Rightarrow> truthy (web_uri w))"

definition to_reference :: "grounding_chunk \<Rightarrow> reference" where
  \<comment> \<open>\<open>chunk => ({ uri: chunk.web.uri, title: chunk.web.title || chunk.web.uri })\<close>,
     applied after the filter only\<close>
  "to_reference chunk =
     (case web chunk of
        None \<Rightarrow> \<lparr>uri = [], title = []\<rparr>
      | Some w \<Rightarrow>
          (let u = (case web_uri w of None \<Rightarrow> [] | Some s \<Rightarrow> s)
           in \<lparr>uri = u, title = (if truthy (web_title w) then the (web_title w) else u)\<rparr>))"

definition groundedReferences :: "grounding_chunk list \<Rightarrow> reference list" where
  "groundedReferences coreReferences = map to_reference (filter has_web_uri coreReferences)"

text \<open>
  A JavaScript \<open>Map\<close> keeps its entries in the order in which their keys were first
  inserted; setting an existing key replaces the value and keeps the position.
\<close>

fun map_set :: "'k \<Rightarrow> 'v \<Rightarrow> ('k \<times> 'v) list \<Rightarrow> ('k \<times> 'v) list" where
  "map_set k v [] = [(k, v)]"
| "map_set k v ((k', v') # m) =
     (if k' = k then (k, v) # m else (k', v') # map_set k v m)"

definition new_Map :: "('k \<times> 'v) list \<Rightarrow> ('k \<times> 'v) list" where
  "new_Map entries = foldl (\<lambda>m (k, v). map_set k v m) [] entries"

definition map_values :: "('k \<times> 'v) list \<Rightarrow> 'v list" where
  "map_values m = map snd m"

definition uniqueReferences :: "grounding_chunk list \<Rightarrow> reference list" where
  "uniqueReferences coreReferences =
     map_values (new_Map (map (\<lambda>item. (uri item, item)) (groundedReferences coreReferences)))"

definition finalReferences :: "grounding_chunk list \<Rightarrow> reference list" where
  \<comment> \<open>\<open>uniqueReferences.slice(0, 7)\<close>\<close>
  "finalReferences coreReferences = take 7 (uniqueReferences coreReferences)"

text \<open>
  The specification's wording, for comparison: the uris without repetition, each at the
  place of its first occurrence.
\<close>

definition first_occurrences :: "'a list \<Rightarrow> 'a list" where
  "first_occurrences xs = foldl (\<lambda>seen x. if x \<in> set seen then seen else seen @ [x]) [] xs"

section \<open>Core-text stage: accumulation and removal of hallucinated links\<close>

record stream_chunk =
  chunk_text :: "jsstring option"
  groundingChunks :: "grounding_chunk list option"

text \<open>
  \<^verbatim>\<open>
  for await (const chunk of responseStream) {
    if (chunk.text) fullText += chunk.text;
    if (chunk.candidates?.[0]?.groundingMetadata?.groundingChunks)
      groundingMetadata.push(...chunk.candidates[0].groundingMetadata.groundingChunks); }
  \<close>
\<close>

fun accumulate :: "stream_chunk list \<Rightarrow> jsstring \<times> grounding_chunk list \<Rightarrow> jsstring \<times> grounding_chunk list" where
  "accumulate [] acc = acc"
| "accumulate (chunk # chunks) (fullText, groundingMetadata) =
     accumulate chunks
       (if truthy (chunk_text chunk) then fullText @ the (chunk_text chunk) else fullText,
        case groundingChunks chunk of None \<Rightarrow> groundingMetadata | Some gs \<Rightarrow> groundingMetadata @ gs)"

definition validUris :: "grounding_chunk list \<Rightarrow> jsstring set" where
  \<comment> \<open>\<open>new Set(groundingMetadata.filter(chunk => chunk.web && chunk.web.uri).map(chunk => chunk.web.uri))\<close>\<close>
  "validUris groundingMetadata = set (map (\<lambda>chunk. uri (to_reference chunk)) (filter has_web_uri groundingMetadata))"

text \<open>
  The expression \<^verbatim>\<open>/\[([^\]]+)\]\((https?:\/\/[^\s\)]+)\)/g\<close> at a position: an opening
  bracket, the longest run of characters other than \<open>]\<close> (not empty), \<open>](\<close>, \<open>http://\<close> or
  \<open>https://\<close>, the longest run of characters that are neither white space nor \<open>)\<close> (not
  empty), and \<open>)\<close>. Both runs are followed by a character outside their class, so no
  shorter run can match. The result is the length of the match and the two groups.
\<close>

definition scheme :: "jsstring \<Rightarrow> (jsstring \<times> jsstring) option" where
  \<comment> \<open>\<open>https?:\/\/\<close>: the scheme matched and the text after it\<close>
  "scheme s =
     (case strip_prefix (js ''https://'') s of
        Some r \<Rightarrow> Some (js ''https://'', r)
      | None \<Rightarrow>
          (case strip_prefix (js ''http://'') s of
             Some r \<Rightarrow> Some (js ''http://'', r)
           | None \<Rightarrow> None))"

definition url_char :: "jschar \<Rightarrow> bool" where
  \<comment> \<open>\<open>[^\s\)]\<close>\<close>
  "url_char c = (\<not> is_space c \<and> c \<noteq> 0x29)"

definition link_match :: "jsstring \<Rightarrow> (nat \<times> jsstring \<times> jsstring) option" where
  "link_match s =
     (case s of
        [] \<Rightarrow> None
      | c # r \<Rightarrow>
          if c \<noteq> 0x5B then None
          else
            let anchor = takeWhile (\<lambda>x. x \<noteq> 0x5D) r;
                r1 = dropWhile (\<lambda>x. x \<noteq> 0x5D) r
            in if anchor = [] then None
               else
                 (case strip_prefix (js ''](''  ) r1 of
                    None \<Rightarrow> None
                  | Some r2 \<Rightarrow>
                      (case scheme r2 of
                         None \<Rightarrow> None
                       | Some (sch, r3) \<Rightarrow>
                           let body = takeWhile url_char r3;
                               r4 = dropWhile url_char r3
                           in if body = [] then None
                              else
                                (case r4 of
                                   [] \<Rightarrow> None
                                 | d # r5 \<Rightarrow>
                                     if d = 0x29
                                     then Some (length anchor + length sch + length body + 4, anchor, sch @ body)
                                     else None))))"

definition keep_valid_link :: "jsstring set \<Rightarrow> jsstring \<Rightarrow> (nat \<times> jsstring) option" where
  \<comment> \<open>\<open>(match, text, url) => validUris.has(url) ? match : text\<close>\<close>
  "keep_valid_link uris s =
     (case link_match s of
        None \<Rightarrow> None
      | Some (len, anchor, url) \<Rightarrow> Some (len, if url \<in> uris then take len s else anchor))"

definition response_empty :: jsstring where
  \<comment> \<open>the message of the error thrown for an empty response (Japanese text)\<close>
  "response_empty =
     [0x41, 0x49, 0x304C, 0x8A18, 0x4E8B, 0x672C, 0x6587, 0x306E, 0x751F, 0x6210, 0x306B,
      0x5931, 0x6557, 0x3057, 0x307E, 0x3057, 0x305F, 0xFF08, 0x30B9, 0x30C6, 0x30C3, 0x30D7,
      0x31, 0xFF09, 0x3002, 0x5FDC, 0x7B54, 0x304C, 0x7A7A, 0x3067, 0x3057, 0x305F, 0x3002]"

definition postprocess :: "jsstring \<Rightarrow> grounding_chunk list \<Rightarrow> error + jsstring \<times> grounding_chunk list" where
  \<comment> \<open>\<open>step1_generateCoreText\<close> from the end of the stream on\<close>
  "postprocess fullText groundingMetadata =
     (if trim fullText = [] then Inl (Error response_empty)
      else Inr (replace_all (keep_valid_link (validUris groundingMetadata)) (trim fullText),
                groundingMetadata))"

definition step1_after_stream :: "stream_chunk list \<Rightarrow> error + jsstring \<times> grounding_chunk list" where
  "step1_after_stream chunks = (case accumulate chunks ([], []) of (fullText, groundingMetadata) \<Rightarrow>
     postprocess fullText groundingMetadata)"

text \<open>
  For the statements. What the regular expression takes for a link, written out: the text
  \<open>[anchor](url)\<close> with an anchor that is not empty and has no closing bracket, and a url
  that is \<open>http://\<close> or \<open>https://\<close> followed by at least one character, none of them white
  space or a closing parenthesis. A text is cut into pieces, each a link or a stretch of
  text; in a segmentation no link begins anywhere inside a stretch, whatever the stretch
  holds (brackets, links of another form). Every text has a segmentation, and the filter
  is to keep or demote each link and to leave the stretches alone.
\<close>

datatype segment = Plain jsstring | Link jsstring jsstring

fun seg_src :: "segment \<Rightarrow> jsstring" where
  "seg_src (Plain t) = t"
| "seg_src (Link anchor url) = [0x5B] @ anchor @ js '']('' @ url @ [0x29]"

definition http_url :: "jsstring \<Rightarrow> bool" where
  "http_url url =
     (\<exists>body. body \<noteq> [] \<and> (\<forall>c\<in>set body. \<not> is_space c \<and> c \<noteq> 0x29) \<and>
             (url = js ''http://'' @ body \<or> url = js ''https://'' @ body))"

definition is_link :: "jsstring \<Rightarrow> jsstring \<Rightarrow> bool" where
  "is_link anchor url = (anchor \<noteq> [] \<and> 0x5D \<notin> set anchor \<and> http_url url)"

definition starts_link :: "jsstring \<Rightarrow> bool" where
  \<comment> \<open>a link begins at the start of the text\<close>
  "starts_link s = (\<exists>anchor url rest. is_link anchor url \<and> s = seg_src (Link anchor url) @ rest)"

fun segmentation :: "segment list \<Rightarrow> bool" where
  "segmentation [] = True"
| "segmentation (Plain t # segs) =
     ((\<forall>i<length t. \<not> starts_link (drop i (t @ concat (map seg_src segs)))) \<and> segmentation segs)"
| "segmentation (Link anchor url # segs) = (is_link anchor url \<and> segmentation segs)"

fun seg_out :: "jsstring set \<Rightarrow> segment \<Rightarrow> jsstring" where
  "seg_out uris (Plain t) = t"
| "seg_out uris (Link anchor url) = (if url \<in> uris then seg_src (Link anchor url) else anchor)"

section \<open>Placeholder keys: encodeUnicode and decodeUnicode\<close>

text \<open>
  \<^verbatim>\<open>
  function encodeUnicode(str) {
    return btoa(encodeURIComponent(str).replace(/%([0-9A-F]{2})/g,
                  (match, p1) => String.fromCharCode(parseInt(p1, 16)))); }
  function decodeUnicode(str) {
    try { return decodeURIComponent(atob(str).split('')
                   .map(c => '%' + ('00' + c.charCodeAt(0).toString(16)).slice(-2)).join('')); }
    catch(e) { return str; } }
  \<close>
  The four platform functions are modelled after their specifications: ECMAScript's
  Encode and Decode for \<open>encodeURIComponent\<close> and \<open>decodeURIComponent\<close>, and the
  forgiving base64 encoding and decoding of the web platform for \<open>btoa\<close> and \<open>atob\<close>.
\<close>

subsection \<open>UTF-16 and UTF-8\<close>

definition is_lead :: "jschar \<Rightarrow> bool" where
  "is_lead c = (0xD800 \<le> c \<and> c \<le> 0xDBFF)"

definition is_trail :: "jschar \<Rightarrow> bool" where
  "is_trail c = (0xDC00 \<le> c \<and> c \<le> 0xDFFF)"

definition pair_code_point :: "jschar \<Rightarrow> jschar \<Rightarrow> nat" where
  "pair_code_point lead trail = (lead - 0xD800) * 0x400 + (trail - 0xDC00) + 0x10000"

definition utf16 :: "nat \<Rightarrow> jsstring" where
  \<comment> \<open>UTF16EncodeCodePoint\<close>
  "utf16 cp =
     (if cp < 0x10000 then [cp]
      else [0xD800 + (cp - 0x10000) div 0x400, 0xDC00 + (cp - 0x10000) mod 0x400])"

definition utf8 :: "nat \<Rightarrow> nat list" where
  \<comment> \<open>the octets of a code point\<close>
  "utf8 cp =
     (if cp < 0x80 then [cp]
      else if cp < 0x800 then [0xC0 + cp div 0x40, 0x80 + cp mod 0x40]
      else if cp < 0x10000 then
        [0xE0 + cp div 0x1000, 0x80 + cp div 0x40 mod 0x40, 0x80 + cp mod 0x40]
      else
        [0xF0 + cp div 0x40000, 0x80 + cp div 0x1000 mod 0x40, 0x80 + cp div 0x40 mod 0x40,
         0x80 + cp mod 0x40])"

definition is_continuation :: "nat \<Rightarrow> bool" where
  "is_continuation b = (0x80 \<le> b \<and> b \<le> 0xBF)"

definition utf8_decode :: "nat list \<Rightarrow> nat option" where
  \<comment> \<open>the code point of a multi-octet sequence, when the sequence is a valid UTF-8
     encoding: right continuation octets, shortest form, no surrogate, at most 10FFFF\<close>
  "utf8_decode octets =
     (case octets of
        [b0, b1] \<Rightarrow>
          (let cp = (b0 - 0xC0) * 0x40 + (b1 - 0x80)
           in if 0xC0 \<le> b0 \<and> b0 < 0xE0 \<and> is_continuation b1 \<and> 0x80 \<le> cp then Some cp else None)
      | [b0, b1, b2] \<Rightarrow>
          (let cp = (b0 - 0xE0) * 0x1000 + (b1 - 0x80) * 0x40 + (b2 - 0x80)
           in if 0xE0 \<le> b0 \<and> b0 < 0xF0 \<and> is_continuation b1 \<and> is_continuation b2 \<and>
                 0x800 \<le> cp \<and> \<not> (0xD800 \<le> cp \<and> cp \<le> 0xDFFF)
              then Some cp else None)
      | [b0, b1, b2, b3] \<Rightarrow>
          (let cp = (b0 - 0xF0) * 0x40000 + (b1 - 0x80) * 0x1000 + (b2 - 0x80) * 0x40 + (b3 - 0x80)
           in if 0xF0 \<le> b0 \<and> b0 < 0xF8 \<and> is_continuation b1 \<and> is_continuation b2 \<and>
                 is_continuation b3 \<and> 0x10000 \<le> cp \<and> cp \<le> 0x10FFFF
              then Some cp else None)
      | _ \<Rightarrow> None)"

subsection \<open>encodeURIComponent\<close>

definition unescaped :: "jschar \<Rightarrow> bool" where
  \<comment> \<open>letters, digits and \<open>- _ . ! ~ * ' ( )\<close>\<close>
  "unescaped c =
     ((0x30 \<le> c \<and> c \<le> 0x39) \<or> (0x41 \<le> c \<and> c \<le> 0x5A) \<or> (0x61 \<le> c \<and> c \<le> 0x7A) \<or>
      c \<in> {0x2D, 0x5F, 0x2E, 0x21, 0x7E, 0x2A, 0x27, 0x28, 0x29})"

definition hex_upper :: "nat \<Rightarrow> jschar" where
  "hex_upper d = (if d < 10 then 0x30 + d else 0x41 + (d - 10))"

definition percent_upper :: "nat \<Rightarrow> jsstring" where
  "percent_upper b = [0x25, hex_upper (b div 16), hex_upper (b mod 16)]"

fun encodeURIComponent :: "jsstring \<Rightarrow> error + jsstring" where
  "encodeURIComponent [] = Inr []"
| "encodeURIComponent (c # cs) =
     (if unescaped c then map_sum id ((#) c) (encodeURIComponent cs)
      else if is_trail c then Inl URIError
      else if is_lead c then
        (case cs of
           [] \<Rightarrow> Inl URIError
         | d # ds \<Rightarrow>
             if is_trail d
             then map_sum id ((@) (concat (map percent_upper (utf8 (pair_code_point c d)))))
                    (encodeURIComponent ds)
             else Inl URIError)
      else map_sum id ((@) (concat (map percent_upper (utf8 c)))) (encodeURIComponent cs))"

subsection \<open>The replacement of the escapes by characters\<close>

definition upper_hex_value :: "jschar \<Rightarrow> nat option" where
  \<comment> \<open>\<open>[0-9A-F]\<close>\<close>
  "upper_hex_value c =
     (if 0x30 \<le> c \<and> c \<le> 0x39 then Some (c - 0x30)
      else if 0x41 \<le> c \<and> c \<le> 0x46 then Some (c - 0x41 + 10)
      else None)"

definition fromCharCode :: "nat \<Rightarrow> jsstring" where
  "fromCharCode n = [n mod 65536]"

definition escape_match :: "jsstring \<Rightarrow> (nat \<times> jsstring) option" where
  \<comment> \<open>\<open>/%([0-9A-F]{2})/\<close> with \<open>(match, p1) => String.fromCharCode(parseInt(p1, 16))\<close>\<close>
  "escape_match s =
     (case s of
        p # a # b # r \<Rightarrow>
          if p = 0x25 then
            (case (upper_hex_value a, upper_hex_value b) of
               (Some x, Some y) \<Rightarrow> Some (3, fromCharCode (16 * x + y))
             | _ \<Rightarrow> None)
          else None
      | _ \<Rightarrow> None)"

subsection \<open>btoa and atob\<close>

definition b64_char :: "nat \<Rightarrow> jschar" where
  \<comment> \<open>the alphabet \<open>A-Z a-z 0-9 + /\<close>\<close>
  "b64_char n =
     (if n < 26 then 0x41 + n
      else if n < 52 then 0x61 + (n - 26)
      else if n < 62 then 0x30 + (n - 52)
      else if n = 62 then 0x2B
      else 0x2F)"

definition b64_value :: "jschar \<Rightarrow> nat option" where
  "b64_value c =
     (if 0x41 \<le> c \<and> c \<le> 0x5A then Some (c - 0x41)
      else if 0x61 \<le> c \<and> c \<le> 0x7A then Some (c - 0x61 + 26)
      else if 0x30 \<le> c \<and> c \<le> 0x39 then Some (c - 0x30 + 52)
      else if c = 0x2B then Some 62
      else if c = 0x2F then Some 63
      else None)"

fun sextets :: "nat list \<Rightarrow> nat list" where
  \<comment> \<open>the octets regrouped in units of 6 bits, the last unit filled with zero bits\<close>
  "sextets (a # b # c # r) =
     [a div 4, a mod 4 * 16 + b div 16, b mod 16 * 4 + c div 64, c mod 64] @ sextets r"
| "sextets [a, b] = [a div 4, a mod 4 * 16 + b div 16, b mod 16 * 4]"
| "sextets [a] = [a div 4, a mod 4 * 16]"
| "sextets [] = []"

definition btoa :: "jsstring \<Rightarrow> error + jsstring" where
  "btoa bin =
     (if \<exists>c\<in>set bin. 0xFF < c then Inl InvalidCharacterError
      else Inr (map b64_char (sextets bin) @ replicate ((3 - length bin mod 3) mod 3) 0x3D))"

definition ascii_whitespace :: "jschar \<Rightarrow> bool" where
  "ascii_whitespace c = (c \<in> {0x9, 0xA, 0xC, 0xD, 0x20})"

definition strip_padding :: "jsstring \<Rightarrow> jsstring" where
  \<comment> \<open>when the length is a multiple of 4: remove one or two \<open>=\<close> at the end\<close>
  "strip_padding s =
     (if length s mod 4 = 0 then
        (case rev s of
           p # q # r \<Rightarrow> if p = 0x3D then (if q = 0x3D then rev r else rev (q # r)) else s
         | _ \<Rightarrow> s)
      else s)"

fun octets :: "nat list \<Rightarrow> nat list" where
  \<comment> \<open>the units of 6 bits regrouped in octets, the bits left over discarded\<close>
  "octets (a # b # c # d # r) =
     [a * 4 + b div 16, b mod 16 * 16 + c div 4, c mod 4 * 64 + d] @ octets r"
| "octets [a, b, c] = [a * 4 + b div 16, b mod 16 * 16 + c div 4]"
| "octets [a, b] = [a * 4 + b div 16]"
| "octets [a] = []"
| "octets [] = []"

definition atob :: "jsstring \<Rightarrow> error + jsstring" where
  "atob str =
     (let s = strip_padding (filter (\<lambda>c. \<not> ascii_whitespace c) str)
      in if length s mod 4 = 1 then Inl InvalidCharacterError
         else if \<exists>c\<in>set s. b64_value c = None then Inl InvalidCharacterError
         else Inr (octets (map (\<lambda>c. the (b64_value c)) s)))"

subsection \<open>decodeURIComponent\<close>

definition hex_value :: "jschar \<Rightarrow> nat option" where
  "hex_value c =
     (if 0x30 \<le> c \<and> c \<le> 0x39 then Some (c - 0x30)
      else if 0x41 \<le> c \<and> c \<le> 0x46 then Some (c - 0x41 + 10)
      else if 0x61 \<le> c \<and> c \<le> 0x66 then Some (c - 0x61 + 10)
      else None)"

definition parse_octet :: "jsstring \<Rightarrow> nat option" where
  \<comment> \<open>the value of the two hexadecimal digits at the start of the text\<close>
  "parse_octet s =
     (case s of
        a # b # r \<Rightarrow>
          (case (hex_value a, hex_value b) of
             (Some x, Some y) \<Rightarrow> Some (16 * x + y)
           | _ \<Rightarrow> None)
      | _ \<Rightarrow> None)"

definition leading_ones :: "nat \<Rightarrow> nat" where
  \<comment> \<open>the number of leading 1 bits of an octet\<close>
  "leading_ones b =
     (if b < 0x80 then 0 else if b < 0xC0 then 1 else if b < 0xE0 then 2
      else if b < 0xF0 then 3 else if b < 0xF8 then 4 else 5)"

fun continuation_octets :: "nat \<Rightarrow> jsstring \<Rightarrow> nat list option" where
  \<comment> \<open>the next \<open>n\<close> escapes \<open>%XX\<close>\<close>
  "continuation_octets 0 s = Some []"
| "continuation_octets (Suc n) [] = None"
| "continuation_octets (Suc n) (p # r) =
     (if p = 0x25 then
        (case parse_octet r of
           None \<Rightarrow> None
         | Some b \<Rightarrow> map_option ((#) b) (continuation_octets n (drop 2 r)))
      else None)"

fun decodeURIComponent :: "jsstring \<Rightarrow> error + jsstring" where
  "decodeURIComponent [] = Inr []"
| "decodeURIComponent (c # cs) =
     (if c \<noteq> 0x25 then map_sum id ((#) c) (decodeURIComponent cs)
      else
        (case parse_octet cs of
           None \<Rightarrow> Inl URIError
         | Some b \<Rightarrow>
             if leading_ones b = 0 then map_sum id ((#) b) (decodeURIComponent (drop 2 cs))
             else if leading_ones b = 1 \<or> 4 < leading_ones b then Inl URIError
             else
               (case continuation_octets (leading_ones b - 1) (drop 2 cs) of
                  None \<Rightarrow> Inl URIError
                | Some more_octets \<Rightarrow>
                    (case utf8_decode (b # more_octets) of
                       None \<Rightarrow> Inl URIError
                     | Some cp \<Rightarrow>
                         map_sum id ((@) (utf16 cp))
                           (decodeURIComponent (drop (2 + 3 * (leading_ones b - 1)) cs))))))"

subsection \<open>The two functions of the source\<close>

definition encodeUnicode :: "jsstring \<Rightarrow> error + jsstring" where
  "encodeUnicode str =
     (case encodeURIComponent str of
        Inl e \<Rightarrow> Inl e
      | Inr escaped \<Rightarrow> btoa (replace_all escape_match escaped))"

definition hex_lower :: "nat \<Rightarrow> jschar" where
  "hex_lower d = (if d < 10 then 0x30 + d else 0x61 + (d - 10))"

function hex_digits :: "nat \<Rightarrow> jsstring" where
  \<comment> \<open>\<open>n.toString(16)\<close>\<close>
  "hex_digits n =
     (if n < 16 then [hex_lower n]
      else hex_digits (n div 16) @ hex_digits (n mod 16))"
  by pat_completeness auto
termination
  by (relation "measure id") auto

declare hex_digits.simps [simp del]

definition percent_of_char :: "jschar \<Rightarrow> jsstring" where
  \<comment> \<open>\<open>c => '%' + ('00' + c.charCodeAt(0).toString(16)).slice(-2)\<close>\<close>
  "percent_of_char c =
     (let padded = js ''00'' @ hex_digits c
      in 0x25 # drop (length padded - 2) padded)"

definition decodeUnicode_try :: "jsstring \<Rightarrow> error + jsstring" where
  \<comment> \<open>the \<open>try\<close> block\<close>
  "decodeUnicode_try str =
     (case atob str of
        Inl e \<Rightarrow> Inl e
      | Inr bin \<Rightarrow> decodeURIComponent (concat (map percent_of_char bin)))"

definition decodeUnicode :: "jsstring \<Rightarrow> error + jsstring" where
  \<comment> \<open>with its \<open>catch\<close>, which returns the argument\<close>
  "decodeUnicode str =
     (case decodeUnicode_try str of
        Inl e \<Rightarrow> Inr str
      | Inr decoded \<Rightarrow> Inr decoded)"

text \<open>
  A string is well formed when every code unit is below 65536 and every surrogate is
  part of a pair: a lead surrogate followed by a trail surrogate.
\<close>

fun well_formed :: "jsstring \<Rightarrow> bool" where
  "well_formed [] = True"
| "well_formed (c # cs) =
     (if is_trail c then False
      else if is_lead c then
        (case cs of [] \<Rightarrow> False | d # ds \<Rightarrow> is_trail d \<and> well_formed ds)
      else c < 65536 \<and> well_formed cs)"


section \<open>Markup renderer (renderMarkdownToHtml)\<close>

text \<open>
  The renderer is a chain of global replacements. The first three passes are modelled
  here: the escaping of \<open>&\<close>, \<open><\<close> and \<open>>\<close>, the chart placeholders and the image and
  screenshot placeholders. The passes after them (emphasis, divider, boxes, headings,
  code spans, links, lists, paragraphs, clean-up) use string replacements and callbacks
  that throw nothing; together they are a function from text to text that the renderer
  takes as the parameter \<open>later_passes\<close>. \<open>JSON.parse\<close> is a platform function: whether it
  accepts a text is the parameter \<open>json_ok\<close>.
\<close>

definition char_match :: "jschar \<Rightarrow> jsstring \<Rightarrow> jsstring \<Rightarrow> (nat \<times> jsstring) option" where
  \<comment> \<open>a regular expression of one literal character, with a fixed replacement\<close>
  "char_match c out s = (case s of [] \<Rightarrow> None | x # r \<Rightarrow> if x = c then Some (1, out) else None)"

definition escape_html :: "jsstring \<Rightarrow> jsstring" where
  \<comment> \<open>\<open>markdown.replace(/&/g, '&amp;').replace(/</g, '&lt;').replace(/>/g, '&gt;')\<close>\<close>
  "escape_html markdown =
     replace_all (char_match 0x3E (js ''&gt;''))
       (replace_all (char_match 0x3C (js ''&lt;''))
          (replace_all (char_match 0x26 (js ''&amp;'')) markdown))"

definition chart_error :: jsstring where
  \<comment> \<open>\<open><div class="error">\<dots></div>\<close> with its Japanese message\<close>
  "chart_error =
     [0x3C, 0x64, 0x69, 0x76, 0x20, 0x63, 0x6C, 0x61, 0x73, 0x73, 0x3D, 0x22, 0x65, 0x72,
      0x72, 0x6F, 0x72, 0x22, 0x3E, 0x30B0, 0x30E9, 0x30D5, 0x30C7, 0x30FC, 0x30BF, 0x306E,
      0x89E3, 0x6790, 0x306B, 0x5931, 0x6557, 0x3057, 0x307E, 0x3057, 0x305F, 0x3002, 0x41,
      0x49, 0x304C, 0x751F, 0x6210, 0x3057, 0x305F, 0x30C7, 0x30FC, 0x30BF, 0x304C, 0x4E0D,
      0x6B63, 0x306A, 0x5F62, 0x5F0F, 0x3067, 0x3059, 0x3002, 0x3C, 0x2F, 0x64, 0x69, 0x76,
      0x3E]"

definition chart_container :: "jsstring \<Rightarrow> jsstring" where
  \<comment> \<open>\<open>`<div class="chart-container"><canvas data-chart-data="${encodedJsonString}"></canvas></div>`\<close>\<close>
  "chart_container encodedJsonString =
     js ''<div class='' @ [0x22] @ js ''chart-container'' @ [0x22] @
     js ''><canvas data-chart-data='' @ [0x22] @ encodedJsonString @ [0x22] @
     js ''></canvas></div>''"

definition chart_match :: "jsstring \<Rightarrow> (nat \<times> jsstring) option" where
  \<comment> \<open>\<^verbatim>\<open>/\[INTERACTIVE_CHART:([\s\S]*?)\]/gs\<close>: the lazy group ends at the first closing
     bracket; the result is the length of the match and the group\<close>
  "chart_match s =
     (case strip_prefix (js ''[INTERACTIVE_CHART:'') s of
        None \<Rightarrow> None
      | Some r \<Rightarrow>
          if 0x5D \<in> set r
          then let jsonString = takeWhile (\<lambda>x. x \<noteq> 0x5D) r
               in Some (length (js ''[INTERACTIVE_CHART:'') + length jsonString + 1, jsonString)
          else None)"

definition chart_replacement :: "(jsstring \<Rightarrow> bool) \<Rightarrow> jsstring \<Rightarrow> jsstring" where
  \<comment> \<open>the callback: \<open>try { JSON.parse(jsonString); \<dots> } catch (e) { \<dots> }\<close>\<close>
  "chart_replacement json_ok jsonString =
     (if json_ok jsonString
      then chart_container (replace_all (char_match 0x22 (js ''&quot;'')) jsonString)
      else chart_error)"

definition chart_pass :: "(jsstring \<Rightarrow> bool) \<Rightarrow> jsstring \<Rightarrow> jsstring" where
  "chart_pass json_ok html =
     replace_all
       (\<lambda>s. case chart_match s of
              None \<Rightarrow> None
            | Some (len, jsonString) \<Rightarrow> Some (len, chart_replacement json_ok jsonString))
       html"

text \<open>
  A global replacement whose callback may throw: the first exception ends it.
\<close>

fun replace_try_from ::
  "(jsstring \<Rightarrow> (nat \<times> (error + jsstring)) option) \<Rightarrow> nat \<Rightarrow> jsstring \<Rightarrow> error + jsstring"
where
  "replace_try_from m skip [] = Inr []"
| "replace_try_from m (Suc skip) (c # cs) = replace_try_from m skip cs"
| "replace_try_from m 0 (c # cs) =
     (case m (c # cs) of
        None \<Rightarrow> map_sum id ((#) c) (replace_try_from m 0 cs)
      | Some (len, Inl e) \<Rightarrow> Inl e
      | Some (len, Inr out) \<Rightarrow> map_sum id ((@) out) (replace_try_from m (len - 1) cs))"

fun find_close :: "jsstring \<Rightarrow> nat option" where
  \<comment> \<open>the position of the first \<open>}]\<close>\<close>
  "find_close (c # d # r) =
     (if c = 0x7D \<and> d = 0x5D then Some 0 else map_option Suc (find_close (d # r)))"
| "find_close r = None"

definition image_match :: "jsstring \<Rightarrow> nat option" where
  \<comment> \<open>\<^verbatim>\<open>/\[(IMAGE_GENERATE|IMAGE_SCREENSHOT):({[\s\S]*?})\]/g\<close>: the length of the match,
     whose lazy group ends at the first \<open>}]\<close>\<close>
  "image_match s =
     (case strip_prefix (js ''[IMAGE_GENERATE:{'') s of
        Some r \<Rightarrow> map_option (\<lambda>p. length (js ''[IMAGE_GENERATE:{'') + p + 2) (find_close r)
      | None \<Rightarrow>
          (case strip_prefix (js ''[IMAGE_SCREENSHOT:{'') s of
             Some r \<Rightarrow> map_option (\<lambda>p. length (js ''[IMAGE_SCREENSHOT:{'') + p + 2) (find_close r)
           | None \<Rightarrow> None))"

definition image_wrapper :: "jsstring \<Rightarrow> jsstring" where
  \<comment> \<open>\<open>`<div class="image-placeholder-wrapper" data-key="${\<dots>}"></div>`\<close>\<close>
  "image_wrapper k =
     js ''<div class='' @ [0x22] @ js ''image-placeholder-wrapper'' @ [0x22] @
     js '' data-key='' @ [0x22] @ k @ [0x22] @ js ''></div>''"

definition image_pass :: "jsstring \<Rightarrow> error + jsstring" where
  "image_pass html =
     replace_try_from
       (\<lambda>s. case image_match s of
              None \<Rightarrow> None
            | Some len \<Rightarrow> Some (len, map_sum id image_wrapper (encodeUnicode (take len s))))
       0 html"

definition renderMarkdownToHtml ::
  "(jsstring \<Rightarrow> bool) \<Rightarrow> (jsstring \<Rightarrow> jsstring) \<Rightarrow> jsstring \<Rightarrow> error + jsstring"
where
  "renderMarkdownToHtml json_ok later_passes markdown =
     map_sum id later_passes (image_pass (chart_pass json_ok (escape_html markdown)))"


text \<open>
  For the statements. What the third pass takes for a placeholder, written out: one of
  the two opening tags, a payload, and \<open>}]\<close>, where \<open>}]\<close> occurs nowhere earlier in the
  payload followed by \<open>}\<close>. A text is cut into pieces, each a placeholder or a stretch of
  text; in a placement no placeholder begins anywhere inside a stretch. The pass is to
  put a keyed element in the place of each placeholder and to leave the stretches alone.
  A chart placeholder begins where \<open>[INTERACTIVE_CHART:\<close> stands with a closing bracket
  somewhere after it.
\<close>

datatype piece = Stretch jsstring | Placeholder jsstring

fun piece_src :: "piece \<Rightarrow> jsstring" where
  "piece_src (Stretch t) = t"
| "piece_src (Placeholder p) = p"

definition is_placeholder :: "jsstring \<Rightarrow> bool" where
  "is_placeholder p =
     (\<exists>tag body.
        (tag = js ''[IMAGE_GENERATE:{'' \<or> tag = js ''[IMAGE_SCREENSHOT:{'') \<and>
        p = tag @ body @ js ''}]'' \<and>
        (\<forall>x y. body @ js ''}]'' = x @ js ''}]'' @ y \<longrightarrow> y = []))"

definition starts_placeholder :: "jsstring \<Rightarrow> bool" where
  "starts_placeholder s = (\<exists>p rest. is_placeholder p \<and> s = p @ rest)"

fun placement :: "piece list \<Rightarrow> bool" where
  "placement [] = True"
| "placement (Stretch t # ps) =
     ((\<forall>i<length t. \<not> starts_placeholder (drop i (t @ concat (map piece_src ps)))) \<and> placement ps)"
| "placement (Placeholder p # ps) = (is_placeholder p \<and> placement ps)"


section \<open>Articles, application state, history\<close>

text \<open>
  \<open>ArticleHistoryItem\<close>. The history list holds items without their binary assets
  (\<open>Omit<ArticleHistoryItem, 'coverImage' | 'imageMap'>\<close>), which is the parent record
  here; the full item extends it. An absent \<open>html\<close> and the empty string are both falsy
  and are both the empty string here. Values that the program only stores and shows
  (enhancements, FAQ list, performance analysis, fact-check results) are kept as their
  JSON text. The fields \<open>expertPersona\<close>, \<open>tone\<close>, \<open>articleType\<close>, \<open>createdAt\<close>,
  \<open>scheduledAt\<close>, the video fields, \<open>lastCheckedForUpdate\<close>, \<open>price\<close> and
  \<open>productDescription\<close> are copied along by every function below and are left out.
\<close>

record CreativeDirection =
  style :: jsstring
  palette :: "jsstring list"

record ArticlePerformance =
  analysis :: jsstring
  userInput :: "jsstring option"

datatype check_status = Unchecked | Checked

record FactCheck =
  fc_status :: check_status
  fc_results :: "jsstring list"

datatype image_entry = Payload jsstring | Screenshot jsstring

type_synonym image_map = "jsstring \<rightharpoonup> image_entry"

record ArticleMeta =
  article_id :: int
  theme :: jsstring
  persona :: jsstring
  markdown :: jsstring
  html :: jsstring
  references :: "reference list"
  enhancements :: "jsstring option"
  faqs :: "jsstring option"
  performance :: "ArticlePerformance option"
  creativeDirection :: "CreativeDirection option"
  factCheck :: "FactCheck option"

record ArticleHistoryItem = ArticleMeta +
  coverImage :: "jsstring option"
  imageMap :: "image_map option"

record ArticleOutline =
  outline_title :: jsstring
  introduction :: jsstring
  headings :: "jsstring list"

text \<open>
  The global state: the module's variables, the object store \<open>articleImages\<close> of
  IndexedDB (one record of cover image and image map per article id) and the entry
  \<open>articleHistory\<close> of localStorage.
\<close>

record app =
  articles :: "ArticleMeta list"
  currentArticle :: "ArticleHistoryItem option"
  selectedOutline :: "ArticleOutline option"
  suggestedDirections :: "CreativeDirection list"
  selectedDirection :: "CreativeDirection option"
  apiKey :: "jsstring option"
  articleImages :: "int \<rightharpoonup> jsstring option \<times> image_map option"
  articleHistory :: "ArticleMeta list option"

text \<open>
  \<^verbatim>\<open>
  async function saveImagesToDb(id, coverImage, imageMap) {
    try {
      const db = await openDb();
      const transaction = db.transaction(STORE_NAME, 'readwrite');
      const store = transaction.objectStore(STORE_NAME);
      store.put({ id, coverImage, imageMap });
      return new Promise((resolve, reject) => {
        transaction.oncomplete = () => resolve();
        transaction.onerror = () => reject(transaction.error); });
    } catch (error) { console.error("Failed to save images to IndexedDB:", error); } }
  \<close>
  and \<open>deleteImagesFromDb\<close> alike with \<open>store.delete(id)\<close>. Both stores are outside the
  program, so how an operation on the object store ends is a parameter. Either the
  transaction completes and the record is written or deleted. Or the store cannot be
  opened (or a call inside \<open>try\<close> throws): this is caught and logged, nothing is written
  or deleted, and the function returns normally. Or the transaction fails: it is rolled
  back, and since the promise is returned from inside \<open>try\<close> without being awaited there,
  its rejection passes the \<open>catch\<close> and reaches the caller. A function returns what it
  threw, if anything, and the state it leaves.
\<close>

datatype store_outcome = Completed | Caught | Failed error

definition saveImagesToDb ::
  "store_outcome \<Rightarrow> int \<Rightarrow> jsstring option \<Rightarrow> image_map option \<Rightarrow> app \<Rightarrow> (error + unit) \<times> app"
where
  "saveImagesToDb ending i cover imap st =
     (case ending of
        Completed \<Rightarrow> (Inr (), st\<lparr>articleImages := (articleImages st)(i \<mapsto> (cover, imap))\<rparr>)
      | Caught \<Rightarrow> (Inr (), st)
      | Failed e \<Rightarrow> (Inl e, st))"

definition deleteImagesFromDb :: "store_outcome \<Rightarrow> int \<Rightarrow> app \<Rightarrow> (error + unit) \<times> app" where
  "deleteImagesFromDb ending i st =
     (case ending of
        Completed \<Rightarrow> (Inr (), st\<lparr>articleImages := (articleImages st)(i := None)\<rparr>)
      | Caught \<Rightarrow> (Inr (), st)
      | Failed e \<Rightarrow> (Inl e, st))"

text \<open>
  \<^verbatim>\<open>
  function saveArticlesToStorage() {
    try { localStorage.setItem('articleHistory', JSON.stringify(articles)); }
    catch (e) { console.error(...); alert(...); } }
  \<close>
  Whether \<open>setItem\<close> succeeds is a parameter; when it throws, the entry stays as it was.
\<close>

definition saveArticlesToStorage :: "bool \<Rightarrow> app \<Rightarrow> app" where
  "saveArticlesToStorage writable st =
     (if writable then st\<lparr>articleHistory := Some (articles st)\<rparr> else st)"

definition itemWithoutImages :: "ArticleHistoryItem \<Rightarrow> ArticleMeta" where
  \<comment> \<open>\<open>const { coverImage, imageMap, ...itemWithoutImages } = item\<close>\<close>
  "itemWithoutImages item = ArticleMeta.truncate item"

text \<open>
  \<^verbatim>\<open>
  async function addArticleToHistory(item) {
    const { coverImage, imageMap, ...itemWithoutImages } = item;
    await saveImagesToDb(item.id, coverImage, imageMap);
    articles.unshift(itemWithoutImages);
    if (articles.length > 50) {
      const oldestItem = articles.pop();
      if (oldestItem) { await deleteImagesFromDb(oldestItem.id); } }
    saveArticlesToStorage(); renderHistoryList(); }
  \<close>
  \<open>pop\<close> is only reached on a list of more than 50 items, where it removes the last one.
  The parameters are the outcomes of the two operations on the object store and whether
  localStorage can be written.
\<close>

definition addArticleToHistory ::
  "store_outcome \<Rightarrow> store_outcome \<Rightarrow> bool \<Rightarrow> ArticleHistoryItem \<Rightarrow> app \<Rightarrow> (error + unit) \<times> app"
where
  "addArticleToHistory saved deleted writable item st =
     (case saveImagesToDb saved (article_id item) (coverImage item) (imageMap item) st of
        (Inl e, st1) \<Rightarrow> (Inl e, st1)
      | (Inr u, st1) \<Rightarrow>
          (let st2 = st1\<lparr>articles := itemWithoutImages item # articles st1\<rparr>
           in if length (articles st2) > 50
              then (let oldestItem = last (articles st2);
                        st3 = st2\<lparr>articles := butlast (articles st2)\<rparr>
                    in case deleteImagesFromDb deleted (article_id oldestItem) st3 of
                         (Inl e, st4) \<Rightarrow> (Inl e, st4)
                       | (Inr u', st4) \<Rightarrow> (Inr (), saveArticlesToStorage writable st4))
              else (Inr (), saveArticlesToStorage writable st2)))"

fun findIndex :: "('a \<Rightarrow> bool) \<Rightarrow> 'a list \<Rightarrow> nat option" where
  \<comment> \<open>\<open>None\<close> for \<open>-1\<close>\<close>
  "findIndex p [] = None"
| "findIndex p (x # xs) = (if p x then Some 0 else map_option Suc (findIndex p xs))"

text \<open>
  \<^verbatim>\<open>
  async function updateArticleInHistory(updatedArticle) {
    const { coverImage, imageMap, ...itemWithoutImages } = updatedArticle;
    await saveImagesToDb(updatedArticle.id, coverImage, imageMap);
    const index = articles.findIndex(a => a.id === updatedArticle.id);
    if (index !== -1) { articles[index] = itemWithoutImages; saveArticlesToStorage(); renderHistoryList(); } }
  \<close>
\<close>

definition updateArticleInHistory ::
  "store_outcome \<Rightarrow> bool \<Rightarrow> ArticleHistoryItem \<Rightarrow> app \<Rightarrow> (error + unit) \<times> app"
where
  "updateArticleInHistory saved writable updatedArticle st =
     (case saveImagesToDb saved (article_id updatedArticle) (coverImage updatedArticle)
             (imageMap updatedArticle) st of
        (Inl e, st1) \<Rightarrow> (Inl e, st1)
      | (Inr u, st1) \<Rightarrow>
          (case findIndex (\<lambda>a. article_id a = article_id updatedArticle) (articles st1) of
             None \<Rightarrow> (Inr (), st1)
           | Some index \<Rightarrow>
               (Inr (), saveArticlesToStorage writable
                          (st1\<lparr>articles := (articles st1)[index := itemWithoutImages updatedArticle]\<rparr>))))"

section \<open>Showing an article, editing it, and the generation pipeline\<close>

text \<open>
  \<^verbatim>\<open>
  async function renderArticle(article) {
    currentArticle = article;
    ...
    if (!article.html) {
      article.html = renderMarkdownToHtml(article.markdown);
      await updateArticleInHistory(article); }
    articleOutput.innerHTML = article.html;
    ... }
  \<close>
  The assignment to \<open>article.html\<close> changes the object that \<open>currentArticle\<close> refers to;
  the history list holds a copy made by \<open>updateArticleInHistory\<close>. The rest of the function
  works on the page only. The handlers below run one at a time.
\<close>

definition renderArticle ::
  "(jsstring \<Rightarrow> bool) \<Rightarrow> (jsstring \<Rightarrow> jsstring) \<Rightarrow> store_outcome \<Rightarrow> bool \<Rightarrow>
   ArticleHistoryItem \<Rightarrow> app \<Rightarrow> (error + unit) \<times> app"
where
  "renderArticle json_ok later_passes saved writable article st =
     (let st1 = st\<lparr>currentArticle := Some article\<rparr>
      in if html article = []
         then (case renderMarkdownToHtml json_ok later_passes (markdown article) of
                 Inl e \<Rightarrow> (Inl e, st1)
               | Inr rendered \<Rightarrow>
                   updateArticleInHistory saved writable (article\<lparr>html := rendered\<rparr>)
                     (st1\<lparr>currentArticle := Some (article\<lparr>html := rendered\<rparr>)\<rparr>))
         else (Inr (), st1))"

text \<open>
  The handler of the save button of the editor (\<open>saveEditButton\<close>):
  \<^verbatim>\<open>
  if (!currentArticle) return;
  const newMarkdown = editTextArea.value;
  const newPerformance = await analyzeArticlePerformance(newMarkdown, ...);
  if (newPerformance && currentArticle.performance?.userInput)
    newPerformance.userInput = currentArticle.performance.userInput;
  const updatedArticle = { ...currentArticle, markdown: newMarkdown, html: '',
    performance: newPerformance, factCheck: { status: 'unchecked', results: [] } };
  await updateArticleInHistory(updatedArticle);
  renderArticle(updatedArticle);
  \<close>
  \<open>analyzeArticlePerformance\<close> asks the generation service and catches every failure, so
  what it returns (an analysis or \<open>undefined\<close>) is a parameter. \<open>renderArticle\<close> is not
  awaited: what it throws does not reach the handler.
\<close>

definition carried_performance ::
  "ArticlePerformance option \<Rightarrow> ArticlePerformance option \<Rightarrow> ArticlePerformance option"
where
  "carried_performance analysed previous =
     (case analysed of
        None \<Rightarrow> None
      | Some p \<Rightarrow>
          (case previous of
             None \<Rightarrow> Some p
           | Some q \<Rightarrow> (case userInput q of None \<Rightarrow> Some p | Some given \<Rightarrow> Some (p\<lparr>userInput := Some given\<rparr>))))"

definition saveEdit ::
  "(jsstring \<Rightarrow> bool) \<Rightarrow> (jsstring \<Rightarrow> jsstring) \<Rightarrow> jsstring \<Rightarrow> ArticlePerformance option \<Rightarrow>
   store_outcome \<Rightarrow> bool \<Rightarrow> store_outcome \<Rightarrow> bool \<Rightarrow> app \<Rightarrow> (error + unit) \<times> app"
where
  "saveEdit json_ok later_passes newMarkdown analysed saved1 writable1 saved2 writable2 st =
     (case currentArticle st of
        None \<Rightarrow> (Inr (), st)
      | Some shown \<Rightarrow>
          (let updatedArticle =
                 shown\<lparr>markdown := newMarkdown, html := [],
                       performance := carried_performance analysed (performance shown),
                       factCheck := Some \<lparr>fc_status = Unchecked, fc_results = []\<rparr>\<rparr>
           in case updateArticleInHistory saved1 writable1 updatedArticle st of
                (Inl e, st1) \<Rightarrow> (Inl e, st1)
              | (Inr u, st1) \<Rightarrow>
                  (Inr (), snd (renderArticle json_ok later_passes saved2 writable2 updatedArticle st1))))"

text \<open>
  The handler of the proofreading button:
  \<^verbatim>\<open>
  if (!currentArticle || proofreadButton.disabled) return;
  ...
  try {
    const ai = getGenAIClient();
    const response = await withRetry(() => ai.models.generateContent({ ... }));
    const proofreadMarkdown = response.text;
    if (!proofreadMarkdown.trim()) { throw new Error(...); }
    const updatedArticle = { ...currentArticle, markdown: proofreadMarkdown, html: '' };
    await updateArticleInHistory(updatedArticle);
    renderArticle(updatedArticle);
  } catch (error) { console.error(...); alert(...); }
  \<close>
  What the awaited call gives is a parameter: an error, or the text of the response, which
  may be missing (then \<open>trim\<close> throws). Everything thrown inside \<open>try\<close> is caught.
\<close>

definition proofread ::
  "(jsstring \<Rightarrow> bool) \<Rightarrow> (jsstring \<Rightarrow> jsstring) \<Rightarrow> error + jsstring option \<Rightarrow>
   store_outcome \<Rightarrow> bool \<Rightarrow> store_outcome \<Rightarrow> bool \<Rightarrow> app \<Rightarrow> app"
where
  "proofread json_ok later_passes response saved1 writable1 saved2 writable2 st =
     (case currentArticle st of
        None \<Rightarrow> st
      | Some shown \<Rightarrow>
          (case getGenAIClient (apiKey st) of
             Inl e \<Rightarrow> st
           | Inr ai \<Rightarrow>
               (case response of
                  Inl e \<Rightarrow> st
                | Inr None \<Rightarrow> st
                | Inr (Some proofreadMarkdown) \<Rightarrow>
                    if trim proofreadMarkdown = [] then st
                    else
                      (let updatedArticle = shown\<lparr>markdown := proofreadMarkdown, html := []\<rparr>
                       in case updateArticleInHistory saved1 writable1 updatedArticle st of
                            (Inl e, st1) \<Rightarrow> st1
                          | (Inr u, st1) \<Rightarrow>
                              snd (renderArticle json_ok later_passes saved2 writable2
                                     updatedArticle st1)))))"

text \<open>
  For the statements: the cache of an article is right when it is empty or is what the
  renderer makes of the article's markdown; a state is right when that holds for the
  article shown, for the history list and for the list in the persistent store.
\<close>

definition cache_ok ::
  "(jsstring \<Rightarrow> bool) \<Rightarrow> (jsstring \<Rightarrow> jsstring) \<Rightarrow> 'a ArticleMeta_scheme \<Rightarrow> bool"
where
  "cache_ok json_ok later_passes a =
     (html a = [] \<or> renderMarkdownToHtml json_ok later_passes (markdown a) = Inr (html a))"

definition caches_ok :: "(jsstring \<Rightarrow> bool) \<Rightarrow> (jsstring \<Rightarrow> jsstring) \<Rightarrow> app \<Rightarrow> bool" where
  "caches_ok json_ok later_passes st =
     (list_all (cache_ok json_ok later_passes) (articles st) \<and>
      (case currentArticle st of None \<Rightarrow> True | Some a \<Rightarrow> cache_ok json_ok later_passes a) \<and>
      (case articleHistory st of None \<Rightarrow> True | Some stored \<Rightarrow> list_all (cache_ok json_ok later_passes) stored))"

text \<open>
  The pipeline. The creative-direction stage (\<open>generateCreativeDirections\<close>):
  \<^verbatim>\<open>
  try {
    const ai = getGenAIClient();
    const response = await withRetry(() => ai.models.generateContent({ ... }));
    const result = JSON.parse(response.text);
    suggestedDirections = result.directions;
    renderCreativeDirections();
    ...
  } catch(e) {
    console.error("Error generating creative directions:", e);
    // Fallback to direct article generation
    generateArticleAssemblyLine();
  } finally { setLoading(false); }
  \<close>
  What the service and \<open>JSON.parse\<close> give is a parameter: an error or the directions. The
  cards that \<open>renderCreativeDirections\<close> draws set \<open>selectedDirection\<close> when clicked and
  start the assembly; the button back to the outlines clears both variables.
\<close>

definition selectOutline :: "ArticleOutline \<Rightarrow> app \<Rightarrow> app" where
  \<comment> \<open>\<open>selectedOutline = suggestedOutlines[index]\<close>, on the click of an outline card\<close>
  "selectOutline outline st = st\<lparr>selectedOutline := Some outline\<rparr>"

definition selectDirection :: "nat \<Rightarrow> app \<Rightarrow> app" where
  \<comment> \<open>\<open>selectedDirection = suggestedDirections[index]\<close>, on the click of a direction card\<close>
  "selectDirection index st =
     st\<lparr>selectedDirection :=
          (if index < length (suggestedDirections st) then Some (suggestedDirections st ! index)
           else None)\<rparr>"

definition backToOutlines :: "app \<Rightarrow> app" where
  \<comment> \<open>\<open>suggestedDirections = []; selectedDirection = null;\<close>\<close>
  "backToOutlines st = st\<lparr>suggestedDirections := [], selectedDirection := None\<rparr>"

text \<open>
  The assembly (\<open>generateArticleAssemblyLine\<close>, \<open>finalizeArticle\<close>). The stages before the
  article is put together ask the generation service; what they deliver is gathered in a
  record that is a parameter here: the time stamp taken as id, the form's theme and
  persona, the decorated markdown, the grounding chunks, the generated images, the
  screenshot instructions read from the markdown, and the three analyses. A failure of
  these stages is caught by the assembly, which shows a message and adds nothing.
  \<^verbatim>\<open>
  const finalImageMap = { ...generatedImages };
  ... finalImageMap[placeholder] = { type: 'screenshot', instruction: jsonData.instruction };
  const coverImageData = generatedImages['cover'] !== 'error' ? generatedImages['cover'] : undefined;
  const newItem = { id: Date.now(), theme: userInput.theme, persona: userInput.persona, ...,
    markdown: finalMarkdown, html: '', references: finalReferences, enhancements, faqs,
    coverImage: coverImageData, imageMap: finalImageMap, performance,
    creativeDirection: selectedDirection ?? undefined,
    factCheck: { status: 'unchecked', results: [] }, ... };
  await addArticleToHistory(newItem);
  renderArticle(newItem);
  \<close>
\<close>

record assembled =
  stamp :: int
  form_theme :: jsstring
  form_persona :: jsstring
  finalMarkdown :: jsstring
  coreReferences :: "grounding_chunk list"
  generatedImages :: "jsstring \<rightharpoonup> jsstring"
  screenshots :: "(jsstring \<times> jsstring) list"
  made_enhancements :: "jsstring option"
  made_faqs :: "jsstring option"
  made_performance :: "ArticlePerformance option"

definition finalImageMap :: "assembled \<Rightarrow> image_map" where
  "finalImageMap parts =
     foldl (\<lambda>m (placeholder, instruction). m(placeholder \<mapsto> Screenshot instruction))
       (\<lambda>k. map_option Payload (generatedImages parts k)) (screenshots parts)"

definition newItem :: "assembled \<Rightarrow> app \<Rightarrow> ArticleHistoryItem" where
  "newItem parts st =
     \<lparr>article_id = stamp parts, theme = form_theme parts, persona = form_persona parts,
      markdown = finalMarkdown parts, html = [],
      references = finalReferences (coreReferences parts),
      enhancements = made_enhancements parts, faqs = made_faqs parts,
      performance = made_performance parts,
      creativeDirection = selectedDirection st,
      factCheck = Some \<lparr>fc_status = Unchecked, fc_results = []\<rparr>,
      coverImage =
        (if generatedImages parts (js ''cover'') = Some (js ''error'') then None
         else generatedImages parts (js ''cover'')),
      imageMap = Some (finalImageMap parts)\<rparr>"

definition finalizeArticle ::
  "(jsstring \<Rightarrow> bool) \<Rightarrow> (jsstring \<Rightarrow> jsstring) \<Rightarrow> store_outcome \<Rightarrow> store_outcome \<Rightarrow> bool \<Rightarrow>
   store_outcome \<Rightarrow> bool \<Rightarrow> assembled \<Rightarrow> app \<Rightarrow> (error + ArticleHistoryItem) \<times> app"
where
  "finalizeArticle json_ok later_passes saved deleted writable saved2 writable2 parts st =
     (case addArticleToHistory saved deleted writable (newItem parts st) st of
        (Inl e, st1) \<Rightarrow> (Inl e, st1)
      | (Inr u, st1) \<Rightarrow>
          (Inr (newItem parts st),
           snd (renderArticle json_ok later_passes saved2 writable2 (newItem parts st) st1)))"

definition generateArticleAssemblyLine ::
  "(jsstring \<Rightarrow> bool) \<Rightarrow> (jsstring \<Rightarrow> jsstring) \<Rightarrow> store_outcome \<Rightarrow> store_outcome \<Rightarrow> bool \<Rightarrow>
   store_outcome \<Rightarrow> bool \<Rightarrow> error + assembled \<Rightarrow> app \<Rightarrow> app"
where
  "generateArticleAssemblyLine json_ok later_passes saved deleted writable saved2 writable2 stages st =
     (case selectedOutline st of
        None \<Rightarrow> st
      | Some outline \<Rightarrow>
          (case stages of
             Inl e \<Rightarrow> st
           | Inr parts \<Rightarrow>
               snd (finalizeArticle json_ok later_passes saved deleted writable saved2 writable2
                      parts st)))"

definition generateCreativeDirections ::
  "(jsstring \<Rightarrow> bool) \<Rightarrow> (jsstring \<Rightarrow> jsstring) \<Rightarrow> store_outcome \<Rightarrow> store_outcome \<Rightarrow> bool \<Rightarrow>
   store_outcome \<Rightarrow> bool \<Rightarrow> error + CreativeDirection list \<Rightarrow> error + assembled \<Rightarrow> app \<Rightarrow> app"
where
  "generateCreativeDirections json_ok later_passes saved deleted writable saved2 writable2
     directions stages st =
     (case getGenAIClient (apiKey st) of
        Inl e \<Rightarrow>
          generateArticleAssemblyLine json_ok later_passes saved deleted writable saved2 writable2
            stages st
      | Inr ai \<Rightarrow>
          (case directions of
             Inl e \<Rightarrow>
               generateArticleAssemblyLine json_ok later_passes saved deleted writable saved2
                 writable2 stages st
           | Inr found \<Rightarrow> st\<lparr>suggestedDirections := found\<rparr>))"

section \<open>Example inputs\<close>



text \<open>
  An image service that rejects every call whose prompt is \<open>two\<close>, rejects the prompt
  \<open>one\<close> at the calls 0 and 1, rejects the prompt \<open>late\<close> before the call 9, and answers
  every other call with one image. Five tasks: the cover, three article images, and a
  task under the key \<open>__proto__\<close>.
\<close>

definition example_api :: image_api where
  "example_api c p =
     (if p = js ''two'' then Inl (Rejected c)
      else if p = js ''one'' \<and> c < 2 then Inl (Rejected c)
      else if p = js ''late'' \<and> c < 9 then Inl (Rejected c)
      else Inr [js ''JPEG:'' @ p])"

definition example_tasks :: "ImageGenerationTask list" where
  "example_tasks =
     [\<lparr>key = js ''cover'', prompt = js ''zero'', overlayText = None\<rparr>,
      \<lparr>key = js ''[IMAGE_GENERATE:1]'', prompt = js ''one'', overlayText = None\<rparr>,
      \<lparr>key = js ''[IMAGE_GENERATE:2]'', prompt = js ''two'', overlayText = None\<rparr>,
      \<lparr>key = js ''[IMAGE_GENERATE:3]'', prompt = js ''late'', overlayText = None\<rparr>,
      \<lparr>key = js ''__proto__'', prompt = js ''zero'', overlayText = None\<rparr>]"

text \<open>
  A history of \<open>n\<close> articles with the ids \<open>n - 1, \<dots>, 0\<close>, newest first as \<open>unshift\<close>
  leaves them, each with an asset record, and a new article with the id 50.
\<close>

definition example_meta :: "int \<Rightarrow> ArticleMeta" where
  "example_meta i =
     \<lparr>article_id = i, theme = js ''theme'', persona = js ''persona'', markdown = js ''# text'',
      html = [], references = [], enhancements = None, faqs = None, performance = None,
      creativeDirection = None, factCheck = None\<rparr>"

definition example_history :: "nat \<Rightarrow> app" where
  "example_history n =
     \<lparr>articles = map (\<lambda>i. example_meta (int i)) (rev [0..<n]),
      currentArticle = None, selectedOutline = None, suggestedDirections = [],
      selectedDirection = None, apiKey = Some (js ''secret''),
      articleImages = (\<lambda>i. if 0 \<le> i \<and> i < int n then Some (Some (js ''JPEG''), None) else None),
      articleHistory = Some (map (\<lambda>i. example_meta (int i)) (rev [0..<n]))\<rparr>"

definition example_item :: ArticleHistoryItem where
  "example_item = ArticleMeta.extend (example_meta 50) (ArticleHistoryItem.fields (Some (js ''JPEG'')) None)"

text \<open>
  The history of three articles with the article 1 shown, as after a click on it in the
  history list; its markup has been cached (by a renderer without later passes, which
  leaves the plain text \<open># text\<close> as it is).
\<close>

definition example_cached :: ArticleMeta where
  "example_cached = (example_meta 1)\<lparr>html := js ''# text''\<rparr>"

definition example_shown :: ArticleHistoryItem where
  "example_shown = ArticleMeta.extend example_cached (ArticleHistoryItem.fields (Some (js ''JPEG'')) None)"

definition example_editing :: app where
  "example_editing =
     (example_history 3)
       \<lparr>articles := [example_meta 2, example_cached, example_meta 0],
        currentArticle := Some example_shown,
        articleHistory := Some [example_meta 2, example_cached, example_meta 0]\<rparr>"

text \<open>
  Two runs of the pipeline in one session, starting with an empty history. In the first
  run an outline is chosen, the creative-direction stage offers one direction, its card
  is clicked and the article 1 is assembled. In the second run an outline is chosen and
  the creative-direction stage fails, so the pipeline falls back to the assembly of the
  article 2. The markdown of both articles is plain text.
\<close>

definition example_start :: app where
  "example_start =
     \<lparr>articles = [], currentArticle = None, selectedOutline = None, suggestedDirections = [],
      selectedDirection = None, apiKey = Some (js ''secret''), articleImages = Map.empty,
      articleHistory = None\<rparr>"

definition example_outline :: ArticleOutline where
  "example_outline = \<lparr>outline_title = js ''Title'', introduction = js ''Intro'', headings = [js ''One'']\<rparr>"

definition example_direction :: CreativeDirection where
  "example_direction = \<lparr>style = js ''Pop'', palette = [js ''#ff0000'', js ''#000000'', js ''#00ff00'']\<rparr>"

definition example_parts :: "int \<Rightarrow> assembled" where
  "example_parts i =
     \<lparr>stamp = i, form_theme = js ''theme'', form_persona = js ''persona'',
      finalMarkdown = js ''Hello'', coreReferences = [], generatedImages = Map.empty,
      screenshots = [], made_enhancements = None, made_faqs = None, made_performance = None\<rparr>"

definition example_first_run :: app where
  "example_first_run =
     generateArticleAssemblyLine (\<lambda>j. True) id Completed Completed True Completed True
       (Inr (example_parts 1))
       (selectDirection 0
          (generateCreativeDirections (\<lambda>j. True) id Completed Completed True Completed True
             (Inr [example_direction]) (Inr (example_parts 1))
             (selectOutline example_outline example_start)))"

definition example_second_run :: app where
  "example_second_run =
     generateCreativeDirections (\<lambda>j. True) id Completed Completed True Completed True
       (Inl (Rejected 0)) (Inr (example_parts 2))
       (selectOutline example_outline example_first_run)"

text \<open>
  A chart placeholder whose array lacks a comma, \<open>[INTERACTIVE_CHART:{"data":[1 2]}]\<close>,
  and the part of it that the renderer's lazy group takes for the JSON text.
\<close>

definition chart_missing_comma :: jsstring where
  "chart_missing_comma = js ''[INTERACTIVE_CHART:{'' @ [0x22] @ js ''data'' @ [0x22] @ js '':[1 2]}]''"

definition chart_group_found :: jsstring where
  "chart_group_found = js ''{'' @ [0x22] @ js ''data'' @ [0x22] @ js '':[1 2''"

section \<open>Retry wrapper\<close>








section \<open>Image resolution: one entry per task key, failures kept local\<close>

lemma withRetry_default_three:
  "withRetry_default fn s =
     (case fn s of
        (Inr v, s1) \<Rightarrow> (Inr v, s1, \<lparr>invocations = 1, waits = []\<rparr>)
      | (Inl e0, s1) \<Rightarrow>
          (case fn s1 of
             (Inr v, s2) \<Rightarrow> (Inr v, s2, \<lparr>invocations = 2, waits = [1000]\<rparr>)
           | (Inl e1, s2) \<Rightarrow>
               (case fn s2 of (r, s3) \<Rightarrow> (r, s3, \<lparr>invocations = 3, waits = [1000, 2000]\<rparr>))))"
proof -
  let ?lg0 = "\<lparr>invocations = 0, waits = []\<rparr>"
  let ?lg1 = "\<lparr>invocations = Suc 0, waits = [1000]\<rparr>"
  let ?lg2 = "\<lparr>invocations = Suc (Suc 0), waits = [1000, 2000]\<rparr>"
  have third: "withRetry_loop fn 3 1000 2 s2 ?lg2 =
      (case fn s2 of (r, s3) \<Rightarrow> (r, s3, \<lparr>invocations = 3, waits = [1000, 2000]\<rparr>))" for s2
    by (subst withRetry_loop.simps) (simp split: prod.splits sum.splits)
  have second: "withRetry_loop fn 3 1000 1 s1 ?lg1 =
      (case fn s1 of
         (Inr v, s2) \<Rightarrow> (Inr v, s2, \<lparr>invocations = 2, waits = [1000]\<rparr>)
       | (Inl e1, s2) \<Rightarrow> withRetry_loop fn 3 1000 2 s2 ?lg2)" for s1
    by (subst withRetry_loop.simps) (simp split: prod.splits sum.splits)
  have first: "withRetry_loop fn 3 1000 0 s ?lg0 =
      (case fn s of
         (Inr v, s1) \<Rightarrow> (Inr v, s1, \<lparr>invocations = 1, waits = []\<rparr>)
       | (Inl e0, s1) \<Rightarrow> withRetry_loop fn 3 1000 1 s1 ?lg1)"
    by (subst withRetry_loop.simps) (simp split: prod.splits sum.splits)
  show ?thesis
    unfolding withRetry_default_def withRetry_def first
    by (simp add: second third split: prod.splits sum.splits)
qed

lemma run_task_first_answer:
  "run_task api task c =
     (stored_value (fst (first_answer api (fullPrompt task) c)),
      c + snd (first_answer api (fullPrompt task) c))"
  by (simp add: run_task_def try_task_def withRetry_default_three generateImages_def
        first_answer_def stored_value_def error_sentinel_def
      split: sum.splits list.splits)

lemma tasks_loop_calls:
  "snd (tasks_loop api tasks r c) = c + calls_of api tasks c"
  by (induction tasks arbitrary: r c) (simp_all add: run_task_first_answer)

lemma tasks_loop_dom:
  "dom (fst (tasks_loop api tasks r c)) = dom r \<union> (key ` set tasks - {js ''__proto__''})"
proof (induction tasks arbitrary: r c)
  case Nil
  show ?case by simp
next
  case (Cons task tasks)
  have "dom (set_property (key task) v r) = dom r \<union> ({key task} - {js ''__proto__''})" for v
    by (auto simp: set_property_def)
  with Cons.IH show ?case
    by (auto simp: run_task_first_answer)
qed

lemma tasks_loop_other:
  "k \<notin> key ` set tasks \<Longrightarrow> fst (tasks_loop api tasks r c) k = r k"
proof (induction tasks arbitrary: r c)
  case Nil
  show ?case by simp
next
  case (Cons task tasks)
  from Cons.prems have k: "k \<noteq> key task" and rest: "k \<notin> key ` set tasks" by auto
  from k have "set_property (key task) v r k = r k" for v
    by (simp add: set_property_def)
  with Cons.IH [OF rest] show ?case
    by (simp add: run_task_first_answer)
qed

lemma calls_of_append:
  "calls_of api (pre @ rest) c = calls_of api pre c + calls_of api rest (c + calls_of api pre c)"
  by (induction pre arbitrary: c) (simp_all add: add.assoc)

lemma tasks_loop_append:
  "tasks_loop api (pre @ rest) r c =
     tasks_loop api rest (fst (tasks_loop api pre r c)) (c + calls_of api pre c)"
  by (induction pre arbitrary: r c) (simp_all add: run_task_first_answer add.assoc)

lemma tasks_loop_last_of_key:
  assumes "key task \<notin> key ` set post" and "key task \<noteq> js ''__proto__''"
  shows "fst (tasks_loop api (pre @ task # post) r c) (key task) =
     Some (stored_value (fst (first_answer api (fullPrompt task) (c + calls_of api pre c))))"
proof -
  define r1 where "r1 = fst (tasks_loop api pre r c)"
  define c1 where "c1 = c + calls_of api pre c"
  define v where "v = stored_value (fst (first_answer api (fullPrompt task) c1))"
  define r2 where "r2 = set_property (key task) v r1"
  have "tasks_loop api (pre @ task # post) r c = tasks_loop api (task # post) r1 c1"
    unfolding r1_def c1_def by (rule tasks_loop_append)
  also have "\<dots> = tasks_loop api post r2 (c1 + snd (first_answer api (fullPrompt task) c1))"
    by (simp add: run_task_first_answer r2_def v_def)
  finally have "fst (tasks_loop api (pre @ task # post) r c) (key task) = r2 (key task)"
    by (simp add: tasks_loop_other [OF assms(1)])
  also have "\<dots> = Some v"
    using assms(2) by (simp add: r2_def set_property_def)
  finally show ?thesis by (simp add: v_def c1_def)
qed

text \<open>
  C5, as amended. When no API key is configured (the key is null or the empty string) the
  stage throws before running any task. Whenever a key is configured, for every list of
  tasks and every behaviour of the image service the stage returns a map and propagates
  no failure. The tasks run in order, each making up to three calls of the service and
  stopping at the first that is not rejected. The domain of the map is exactly the task
  keys other than \<open>__proto__\<close>. For each of these keys the value is that of the last task
  with the key: the first payload of the first answer among the task's own three calls,
  or the sentinel \<open>error\<close> when all three are rejected or the answer holds no image. What
  happens to the other tasks decides only which calls are the task's own.
\<close>

theorem generateAndStoreImages_isolated:
  "(the_key = None \<or> the_key = Some [] \<longrightarrow>
      generateAndStoreImages api the_key tasks c = Inl (Error api_key_missing)) \<and>
   (\<forall>k. the_key = Some k \<and> k \<noteq> [] \<longrightarrow>
      (\<exists>results.
         generateAndStoreImages api the_key tasks c = Inr (results, c + calls_of api tasks c) \<and>
         dom results = key ` set tasks - {js ''__proto__''} \<and>
         (\<forall>pre task post.
            tasks = pre @ task # post \<and> key task \<notin> key ` set post \<and>
            key task \<noteq> js ''__proto__'' \<longrightarrow>
            results (key task) =
              Some (stored_value (fst (first_answer api (fullPrompt task)
                                         (c + calls_of api pre c)))))))"
proof (intro conjI allI impI)
  assume "the_key = None \<or> the_key = Some []"
  then show "generateAndStoreImages api the_key tasks c = Inl (Error api_key_missing)"
    by (auto simp: generateAndStoreImages_def getGenAIClient_def)
next
  fix k
  assume k: "the_key = Some k \<and> k \<noteq> []"
  define results where "results = fst (tasks_loop api tasks Map.empty c)"
  have l: "tasks_loop api tasks Map.empty c = (results, c + calls_of api tasks c)"
    using tasks_loop_calls [of api tasks Map.empty c]
    by (cases "tasks_loop api tasks Map.empty c") (simp add: results_def)
  have g: "generateAndStoreImages api the_key tasks c = Inr (results, c + calls_of api tasks c)"
    using k by (simp add: generateAndStoreImages_def getGenAIClient_def l)
  have d: "dom results = key ` set tasks - {js ''__proto__''}"
    unfolding results_def by (simp add: tasks_loop_dom)
  have v: "\<forall>pre task post.
            tasks = pre @ task # post \<and> key task \<notin> key ` set post \<and>
            key task \<noteq> js ''__proto__'' \<longrightarrow>
            results (key task) =
              Some (stored_value (fst (first_answer api (fullPrompt task)
                                         (c + calls_of api pre c))))"
    unfolding results_def by (auto simp: tasks_loop_last_of_key)
  from g d v show "\<exists>results.
         generateAndStoreImages api the_key tasks c = Inr (results, c + calls_of api tasks c) \<and>
         dom results = key ` set tasks - {js ''__proto__''} \<and>
         (\<forall>pre task post.
            tasks = pre @ task # post \<and> key task \<notin> key ` set post \<and>
            key task \<noteq> js ''__proto__'' \<longrightarrow>
            results (key task) =
              Some (stored_value (fst (first_answer api (fullPrompt task)
                                         (c + calls_of api pre c)))))"
    by blast
qed

text \<open>
  The statement at work: the cover is answered at once; the second task is rejected at
  the call 1 and answered at the call 2; the third is rejected three times; the fourth is
  rejected at its three calls 6, 7 and 8 although the call 9 would have been answered;
  the fifth is answered and not stored. Ten calls are made in all.
\<close>

theorem generateAndStoreImages_isolated_witness:
  "\<exists>results.
     generateAndStoreImages example_api (Some (js ''secret'')) example_tasks 0 = Inr (results, 10) \<and>
     dom results = {js ''cover'', js ''[IMAGE_GENERATE:1]'', js ''[IMAGE_GENERATE:2]'',
                    js ''[IMAGE_GENERATE:3]''} \<and>
     results (js ''cover'') = Some (js ''JPEG:zero'') \<and>
     results (js ''[IMAGE_GENERATE:1]'') = Some (js ''JPEG:one'') \<and>
     results (js ''[IMAGE_GENERATE:2]'') = Some (js ''error'') \<and>
     results (js ''[IMAGE_GENERATE:3]'') = Some (js ''error'')"
proof -
  let ?t0 = "\<lparr>key = js ''cover'', prompt = js ''zero'', overlayText = None\<rparr>"
  let ?t1 = "\<lparr>key = js ''[IMAGE_GENERATE:1]'', prompt = js ''one'', overlayText = None\<rparr>"
  let ?t2 = "\<lparr>key = js ''[IMAGE_GENERATE:2]'', prompt = js ''two'', overlayText = None\<rparr>"
  let ?t3 = "\<lparr>key = js ''[IMAGE_GENERATE:3]'', prompt = js ''late'', overlayText = None\<rparr>"
  let ?t4 = "\<lparr>key = js ''__proto__'', prompt = js ''zero'', overlayText = None\<rparr>"
  have ne: "js ''zero'' \<noteq> js ''two''" "js ''one'' \<noteq> js ''two''" "js ''late'' \<noteq> js ''two''"
    "js ''zero'' \<noteq> js ''one''" "js ''zero'' \<noteq> js ''late''" "js ''late'' \<noteq> js ''one''"
    by (simp_all add: js_def)
  have f0: "first_answer example_api (js ''zero'') c = (Some [js ''JPEG:zero''], 1)" for c
    using ne by (simp add: first_answer_def example_api_def) (simp add: js_def)
  have f1: "first_answer example_api (js ''one'') (Suc 0) = (Some [js ''JPEG:one''], 2)"
    using ne by (simp add: first_answer_def example_api_def) (simp add: js_def)
  have f2: "first_answer example_api (js ''two'') c = (None, 3)" for c
    by (simp add: first_answer_def example_api_def)
  have f3: "first_answer example_api (js ''late'') 6 = (None, 3)"
    using ne by (simp add: first_answer_def example_api_def)
  have p: "fullPrompt ?t0 = js ''zero''" "fullPrompt ?t1 = js ''one''"
    "fullPrompt ?t2 = js ''two''" "fullPrompt ?t3 = js ''late''" "fullPrompt ?t4 = js ''zero''"
    by (simp_all add: fullPrompt_def)
  have c0: "calls_of example_api [] 0 = 0" by simp
  have c1: "calls_of example_api [?t0] 0 = 1" by (simp add: p f0)
  have c2: "calls_of example_api [?t0, ?t1] 0 = 3" by (simp add: p f0 f1)
  have c3: "calls_of example_api [?t0, ?t1, ?t2] 0 = 6" by (simp add: p f0 f1 f2)
  have c5: "calls_of example_api example_tasks 0 = 10"
    by (simp add: example_tasks_def p f0 f1 f2 f3)
  have keys: "key ` set example_tasks - {js ''__proto__''} =
      {js ''cover'', js ''[IMAGE_GENERATE:1]'', js ''[IMAGE_GENERATE:2]'', js ''[IMAGE_GENERATE:3]''}"
    by (auto simp: example_tasks_def js_def)
  have sk: "Some (js ''secret'') = Some (js ''secret'') \<and> js ''secret'' \<noteq> []"
    by (simp add: js_def)
  let ?P = "\<lambda>results.
         generateAndStoreImages example_api (Some (js ''secret'')) example_tasks 0 =
           Inr (results, 0 + calls_of example_api example_tasks 0) \<and>
         dom results = key ` set example_tasks - {js ''__proto__''} \<and>
         (\<forall>pre task post.
            example_tasks = pre @ task # post \<and> key task \<notin> key ` set post \<and>
            key task \<noteq> js ''__proto__'' \<longrightarrow>
            results (key task) =
              Some (stored_value (fst (first_answer example_api (fullPrompt task)
                                         (0 + calls_of example_api pre 0)))))"
  from generateAndStoreImages_isolated
         [of "Some (js ''secret'')" example_api example_tasks 0, THEN conjunct2, THEN spec, THEN mp, OF sk]
  have "\<exists>results. ?P results" .
  then obtain results where big: "?P results" ..
  note g = big [THEN conjunct1]
  note d = big [THEN conjunct2, THEN conjunct1]
  note v = big [THEN conjunct2, THEN conjunct2, THEN spec, THEN spec, THEN spec, THEN mp]
  have r0: "results (key ?t0) = Some (stored_value (fst (first_answer example_api (fullPrompt ?t0)
               (0 + calls_of example_api [] 0))))"
    by (rule v [of "[]" ?t0 "[?t1, ?t2, ?t3, ?t4]"]) (simp add: example_tasks_def js_def)
  have r1: "results (key ?t1) = Some (stored_value (fst (first_answer example_api (fullPrompt ?t1)
               (0 + calls_of example_api [?t0] 0))))"
    by (rule v [of "[?t0]" ?t1 "[?t2, ?t3, ?t4]"]) (simp add: example_tasks_def js_def)
  have r2: "results (key ?t2) = Some (stored_value (fst (first_answer example_api (fullPrompt ?t2)
               (0 + calls_of example_api [?t0, ?t1] 0))))"
    by (rule v [of "[?t0, ?t1]" ?t2 "[?t3, ?t4]"]) (simp add: example_tasks_def js_def)
  have r3: "results (key ?t3) = Some (stored_value (fst (first_answer example_api (fullPrompt ?t3)
               (0 + calls_of example_api [?t0, ?t1, ?t2] 0))))"
    by (rule v [of "[?t0, ?t1, ?t2]" ?t3 "[?t4]"]) (simp add: example_tasks_def js_def)
  from g have g': "generateAndStoreImages example_api (Some (js ''secret'')) example_tasks 0 =
           Inr (results, 10)"
    by (simp only: c5 add_0)
  from d have d': "dom results = {js ''cover'', js ''[IMAGE_GENERATE:1]'', js ''[IMAGE_GENERATE:2]'',
                    js ''[IMAGE_GENERATE:3]''}"
    by (simp only: keys)
  from r0 have v0: "results (js ''cover'') = Some (js ''JPEG:zero'')"
    by (simp add: p f0 stored_value_def)
  from r1 have v1: "results (js ''[IMAGE_GENERATE:1]'') = Some (js ''JPEG:one'')"
    by (simp add: p f0 f1 stored_value_def)
  from r2 have v2: "results (js ''[IMAGE_GENERATE:2]'') = Some (js ''error'')"
    by (simp add: p f0 f1 f2 stored_value_def)
  from r3 have v3: "results (js ''[IMAGE_GENERATE:3]'') = Some (js ''error'')"
    by (simp add: p f0 f1 f2 f3 stored_value_def)
  from g' d' v0 v1 v2 v3 show ?thesis by blast
qed

text \<open>
  The claim as stated fails in two ways. When no API key is configured the client is
  built before the loop and outside its \<open>try\<close>, so the stage throws and returns no map.
  And a task under the key \<open>__proto__\<close> leaves no entry in the map, whatever the service
  answers.
\<close>

theorem generateAndStoreImages_no_key_counterexample:
  "generateAndStoreImages example_api None example_tasks 0 = Inl (Error api_key_missing) \<and>
   (\<exists>results. generateAndStoreImages example_api (Some (js ''secret''))
        [\<lparr>key = js ''__proto__'', prompt = js ''zero'', overlayText = None\<rparr>] 0 = Inr (results, 1) \<and>
      dom results = {})"
proof
  show "generateAndStoreImages example_api None example_tasks 0 = Inl (Error api_key_missing)"
    by (simp add: generateAndStoreImages_def getGenAIClient_def)
  have "first_answer example_api (js ''zero'') 0 = (Some [js ''JPEG:zero''], 1)"
    by (simp add: first_answer_def example_api_def js_def)
  then have "generateAndStoreImages example_api (Some (js ''secret''))
        [\<lparr>key = js ''__proto__'', prompt = js ''zero'', overlayText = None\<rparr>] 0 =
        Inr (Map.empty, 1) \<and> dom (Map.empty :: jsstring \<rightharpoonup> jsstring) = {}"
    by (simp add: generateAndStoreImages_def getGenAIClient_def run_task_first_answer
          fullPrompt_def set_property_def)
       (simp add: js_def)
  then show "\<exists>results. generateAndStoreImages example_api (Some (js ''secret''))
        [\<lparr>key = js ''__proto__'', prompt = js ''zero'', overlayText = None\<rparr>] 0 = Inr (results, 1) \<and>
      dom results = {}"
    by blast
qed
section \<open>Reference list: deduplicated, first-seen order, at most seven\<close>









lemma foldl_first_set:
  "set (foldl (\<lambda>seen x. if x \<in> set seen then seen else seen @ [x]) seen xs) = set seen \<union> set xs"
  by (induction xs arbitrary: seen) auto

lemma first_occurrences_set: "set (first_occurrences xs) = set xs"
  unfolding first_occurrences_def by (simp add: foldl_first_set)

lemma first_occurrences_Cons:
  "first_occurrences (x # xs) = x # first_occurrences (filter (\<lambda>y. y \<noteq> x) xs)"
proof -
  have "foldl (\<lambda>seen y. if y \<in> set seen then seen else seen @ [y]) (x # seen) xs =
        x # foldl (\<lambda>seen y. if y \<in> set seen then seen else seen @ [y]) seen (filter (\<lambda>y. y \<noteq> x) xs)"
    for seen
    by (induction xs arbitrary: seen) auto
  from this [of "[]"] show ?thesis by (simp add: first_occurrences_def)
qed



section \<open>Core-text stage: the hallucination filter\<close>

lemma replace_from_skip: "replace_from m (length xs) (xs @ ys) = replace_from m 0 ys"
  by (induction xs) simp_all

lemma replace_all_match:
  assumes "m (matched @ rest) = Some (length matched, out)" and "matched \<noteq> []"
  shows "replace_all m (matched @ rest) = out @ replace_all m rest"
proof -
  from assms(2) obtain c cs where mc: "matched = c # cs" by (cases matched) auto
  have "replace_from m 0 (c # (cs @ rest)) = out @ replace_from m (length cs) (cs @ rest)"
    using assms(1) by (simp add: mc)
  then show ?thesis
    by (simp add: replace_all_def mc replace_from_skip)
qed

lemma replace_all_plain:
  "\<forall>c\<in>set pre. \<forall>r. m (c # r) = None \<Longrightarrow> replace_all m (pre @ s) = pre @ replace_all m s"
  by (induction pre) (simp_all add: replace_all_def)

lemma strip_prefix_append: "strip_prefix p (p @ r) = Some r"
  by (induction p) simp_all

lemma strip_prefix_Some: "strip_prefix p s = Some r \<Longrightarrow> s = p @ r"
  by (induction p s rule: strip_prefix.induct) (auto split: if_splits)

lemma scheme_Some: "scheme s = Some (sch, r) \<Longrightarrow> s = sch @ r \<and> (sch = js ''https://'' \<or> sch = js ''http://'')"
  by (auto simp: scheme_def split: option.splits dest: strip_prefix_Some)

lemma scheme_https: "scheme (js ''https://'' @ r) = Some (js ''https://'', r)"
  by (simp add: scheme_def js_def)

lemma scheme_http: "scheme (js ''http://'' @ r) = Some (js ''http://'', r)"
  by (simp add: scheme_def js_def)

lemma scheme_append: "scheme s = Some (sch, r) \<Longrightarrow> scheme (s @ t) = Some (sch, r @ t)"
  using scheme_Some [of s sch r] scheme_https [of "r @ t"] scheme_http [of "r @ t"] by auto

lemma takeWhile_stop: "\<forall>x\<in>set xs. P x \<Longrightarrow> \<not> P y \<Longrightarrow> takeWhile P (xs @ y # ys) = xs"
  by (induction xs) simp_all

lemma dropWhile_stop: "\<forall>x\<in>set xs. P x \<Longrightarrow> \<not> P y \<Longrightarrow> dropWhile P (xs @ y # ys) = y # ys"
  by (induction xs) simp_all

lemma link_match_not_bracket: "c \<noteq> 0x5B \<Longrightarrow> link_match (c # r) = None"
  by (simp add: link_match_def)

lemma http_url_scheme [code]:
  "http_url url =
     (case scheme url of None \<Rightarrow> False | Some (sch, body) \<Rightarrow> body \<noteq> [] \<and> list_all url_char body)"
proof (cases "scheme url")
  case None
  have "\<not> http_url url"
  proof
    assume "http_url url"
    then obtain body where "url = js ''http://'' @ body \<or> url = js ''https://'' @ body"
      by (auto simp: http_url_def)
    with None scheme_http [of body] scheme_https [of body] show False by auto
  qed
  with None show ?thesis by simp
next
  case (Some p)
  obtain sch body where p: "p = (sch, body)" by (cases p)
  from scheme_Some [of url sch body] Some p
  have u: "url = sch @ body" and sch: "sch = js ''https://'' \<or> sch = js ''http://''" by simp_all
  have "http_url url = (body \<noteq> [] \<and> list_all url_char body)"
  proof
    assume "http_url url"
    then obtain b where b: "b \<noteq> []" "list_all url_char b"
      and ub: "url = js ''http://'' @ b \<or> url = js ''https://'' @ b"
      by (auto simp: http_url_def list_all_iff url_char_def)
    from ub Some p scheme_http [of b] scheme_https [of b] have "b = body" by auto
    with b show "body \<noteq> [] \<and> list_all url_char body" by simp
  next
    assume "body \<noteq> [] \<and> list_all url_char body"
    with u sch show "http_url url" by (auto simp: http_url_def list_all_iff url_char_def)
  qed
  with Some p show ?thesis by simp
qed

lemma link_match_link:
  assumes "is_link anchor url"
  shows "link_match (seg_src (Link anchor url) @ rest) =
           Some (length (seg_src (Link anchor url)), anchor, url)"
proof -
  from assms have a: "anchor \<noteq> []" "0x5D \<notin> set anchor" and h: "http_url url"
    by (simp_all add: is_link_def)
  from h obtain sch body where sc: "scheme url = Some (sch, body)"
    and b: "body \<noteq> []" "list_all url_char body"
    by (auto simp: http_url_scheme split: option.splits)
  from scheme_Some [OF sc] have u: "url = sch @ body" by simp
  define tail where "tail = url @ 0x29 # rest"
  have br: "js '']('' @ tail = 0x5D # 0x28 # tail" by (simp add: js_def)
  have an: "\<forall>x\<in>set anchor. x \<noteq> 0x5D" using a(2) by auto
  have tw: "takeWhile (\<lambda>x. x \<noteq> 0x5D) (anchor @ js '']('' @ tail) = anchor"
    unfolding br using takeWhile_stop [of anchor "\<lambda>x. x \<noteq> 0x5D" "0x5D"] an by simp
  have dw: "dropWhile (\<lambda>x. x \<noteq> 0x5D) (anchor @ js '']('' @ tail) = js '']('' @ tail"
    unfolding br using dropWhile_stop [of anchor "\<lambda>x. x \<noteq> 0x5D" "0x5D"] an by simp
  have sp: "strip_prefix (js '']('') (js '']('' @ tail) = Some tail"
    by (rule strip_prefix_append)
  have sc': "scheme tail = Some (sch, body @ 0x29 # rest)"
    unfolding tail_def by (rule scheme_append [OF sc])
  have nu: "\<not> url_char 0x29" by (simp add: url_char_def)
  have bu: "\<forall>x\<in>set body. url_char x" using b(2) by (simp add: list_all_iff)
  have tb: "takeWhile url_char (body @ 0x29 # rest) = body"
    by (rule takeWhile_stop [OF bu nu])
  have db: "dropWhile url_char (body @ 0x29 # rest) = 0x29 # rest"
    by (rule dropWhile_stop [OF bu nu])
  have src: "seg_src (Link anchor url) @ rest = 0x5B # (anchor @ js '']('' @ tail)"
    by (simp add: tail_def)
  have len: "length (seg_src (Link anchor url)) = length anchor + length sch + length body + 4"
    by (simp add: u js_def)
  have main: "link_match (0x5B # (anchor @ js '']('' @ tail)) =
          Some (length anchor + length sch + length body + 4, anchor, sch @ body)"
    unfolding link_match_def
    by (simp only: list.case tw dw sp sc' tb db a(1) b(1) Let_def if_False if_True
          option.case prod.case refl simp_thms)
  show ?thesis
    by (simp only: src len main) (simp add: u)
qed

lemma link_match_sound:
  assumes "link_match s = Some (n, anchor, url)"
  shows "is_link anchor url \<and> n = length (seg_src (Link anchor url)) \<and>
         s = seg_src (Link anchor url) @ drop n s"
proof -
  from assms obtain r where s: "s = 0x5B # r"
    by (cases s) (auto simp: link_match_def split: if_splits)
  define a where "a = takeWhile (\<lambda>x. x \<noteq> 0x5D) r"
  define r1 where "r1 = dropWhile (\<lambda>x. x \<noteq> 0x5D) r"
  have r: "r = a @ r1" by (simp add: a_def r1_def)
  have a5: "0x5D \<notin> set a" unfolding a_def by (auto dest: set_takeWhileD)
  from assms have lm: "(if a = [] then None
               else
                 (case strip_prefix (js ''](''  ) r1 of
                    None \<Rightarrow> None
                  | Some r2 \<Rightarrow>
                      (case scheme r2 of
                         None \<Rightarrow> None
                       | Some (sch, r3) \<Rightarrow>
                           let body = takeWhile url_char r3;
                               r4 = dropWhile url_char r3
                           in if body = [] then None
                              else
                                (case r4 of
                                   [] \<Rightarrow> None
                                 | d # r5 \<Rightarrow>
                                     if d = 0x29
                                     then Some (length a + length sch + length body + 4, a, sch @ body)
                                     else None)))) = Some (n, anchor, url)"
    unfolding a_def r1_def by (simp add: link_match_def s Let_def)
  then have an: "a \<noteq> []" by (auto split: if_splits)
  from lm an obtain r2 where p: "strip_prefix (js '']('') r1 = Some r2"
    by (auto split: option.splits)
  from lm an p obtain sch r3 where sc: "scheme r2 = Some (sch, r3)"
    by (auto split: option.splits)
  define body where "body = takeWhile url_char r3"
  define r4 where "r4 = dropWhile url_char r3"
  have r3: "r3 = body @ r4" by (simp add: body_def r4_def)
  have bu: "list_all url_char body"
    unfolding body_def list_all_iff by (auto dest: set_takeWhileD)
  have lm2: "(if body = [] then None
                              else
                                (case r4 of
                                   [] \<Rightarrow> None
                                 | d # r5 \<Rightarrow>
                                     if d = 0x29
                                     then Some (length a + length sch + length body + 4, a, sch @ body)
                                     else None)) = Some (n, anchor, url)"
    unfolding body_def r4_def using lm an p sc by (simp add: Let_def)
  then have bn: "body \<noteq> []" by (auto split: if_splits)
  from lm2 bn obtain r5 where r4: "r4 = 0x29 # r5"
    by (cases r4) (auto split: if_splits)
  from lm2 bn r4 have res: "n = length a + length sch + length body + 4" "anchor = a" "url = sch @ body"
    by auto
  from scheme_Some [OF sc] have r2: "r2 = sch @ r3"
    and sch: "sch = js ''https://'' \<or> sch = js ''http://''" by simp_all
  from strip_prefix_Some [OF p] have r1: "r1 = js '']('' @ r2" .
  from sch bn bu have h: "http_url (sch @ body)"
    by (auto simp: http_url_def list_all_iff url_char_def)
  have link: "is_link anchor url"
    using an a5 h by (simp add: is_link_def res)
  have whole: "s = seg_src (Link anchor url) @ r5"
    by (simp add: s r r1 r2 r3 r4 res)
  have len: "n = length (seg_src (Link anchor url))"
    by (simp add: res js_def)
  from whole len have "drop n s = r5" by simp
  with link len whole show ?thesis by simp
qed

lemma starts_link_match [code]: "starts_link s = (link_match s \<noteq> None)"
proof
  assume "starts_link s"
  then obtain anchor url rest where "is_link anchor url" "s = seg_src (Link anchor url) @ rest"
    by (auto simp: starts_link_def)
  with link_match_link [of anchor url rest] show "link_match s \<noteq> None" by simp
next
  assume "link_match s \<noteq> None"
  then obtain n anchor url where "link_match s = Some (n, anchor, url)" by auto
  from link_match_sound [OF this] show "starts_link s"
    unfolding starts_link_def by blast
qed

lemma keep_valid_link_not_bracket: "c \<noteq> 0x5B \<Longrightarrow> keep_valid_link uris (c # r) = None"
  by (simp add: keep_valid_link_def link_match_not_bracket)

lemma keep_valid_link_none: "\<not> starts_link s \<Longrightarrow> keep_valid_link uris s = None"
  by (cases "link_match s") (auto simp: keep_valid_link_def starts_link_match)

lemma keep_valid_link_link:
  assumes "is_link anchor url"
  shows "keep_valid_link uris (seg_src (Link anchor url) @ rest) =
           Some (length (seg_src (Link anchor url)), seg_out uris (Link anchor url))"
  by (simp add: keep_valid_link_def link_match_link [OF assms] del: seg_src.simps)

lemma replace_all_unmatched:
  "\<forall>i<length pre. m (drop i (pre @ s)) = None \<Longrightarrow> replace_all m (pre @ s) = pre @ replace_all m s"
proof (induction pre)
  case Nil
  show ?case by simp
next
  case (Cons c pre)
  from Cons.prems have "m (drop 0 ((c # pre) @ s)) = None" by blast
  then have here: "m (c # pre @ s) = None" by simp
  have "\<forall>i<length pre. m (drop i (pre @ s)) = None"
  proof (intro allI impI)
    fix i assume "i < length pre"
    then have "Suc i < length (c # pre)" by simp
    with Cons.prems have "m (drop (Suc i) ((c # pre) @ s)) = None" by blast
    then show "m (drop i (pre @ s)) = None" by simp
  qed
  from Cons.IH [OF this] here show ?case by (simp add: replace_all_def)
qed

lemma filter_segments:
  "segmentation segs \<Longrightarrow>
   replace_all (keep_valid_link uris) (concat (map seg_src segs)) = concat (map (seg_out uris) segs)"
proof (induction segs)
  case Nil
  show ?case by (simp add: replace_all_def)
next
  case (Cons seg segs)
  show ?case
  proof (cases seg)
    case (Plain t)
    with Cons.prems have free: "\<forall>i<length t. \<not> starts_link (drop i (t @ concat (map seg_src segs)))"
      and rest: "segmentation segs" by simp_all
    from free have "\<forall>i<length t. keep_valid_link uris (drop i (t @ concat (map seg_src segs))) = None"
      by (simp add: keep_valid_link_none)
    from replace_all_unmatched [OF this] Cons.IH [OF rest] Plain show ?thesis by simp
  next
    case (Link anchor url)
    with Cons.prems have ok: "is_link anchor url" and rest: "segmentation segs" by simp_all
    have ne: "seg_src (Link anchor url) \<noteq> []" by simp
    from ok have "keep_valid_link uris (seg_src (Link anchor url) @ concat (map seg_src segs)) =
            Some (length (seg_src (Link anchor url)), seg_out uris (Link anchor url))"
      by (rule keep_valid_link_link)
    then have "replace_all (keep_valid_link uris) (seg_src (Link anchor url) @ concat (map seg_src segs)) =
            seg_out uris (Link anchor url) @ replace_all (keep_valid_link uris) (concat (map seg_src segs))"
      using ne by (rule replace_all_match)
    with Cons.IH [OF rest] Link show ?thesis by (simp del: seg_src.simps seg_out.simps)
  qed
qed

lemma segmentation_exists: "\<exists>segs. segmentation segs \<and> concat (map seg_src segs) = t"
proof (induction "length t" arbitrary: t rule: less_induct)
  case less
  show ?case
  proof (cases t)
    case Nil
    have "segmentation [] \<and> concat (map seg_src []) = t" using Nil by simp
    then show ?thesis ..
  next
    case (Cons c r)
    show ?thesis
    proof (cases "starts_link t")
      case True
      then obtain anchor url rest where l: "is_link anchor url"
        and t: "t = seg_src (Link anchor url) @ rest"
        by (auto simp: starts_link_def)
      from t have "length rest < length t" by simp
      from less [OF this] obtain segs where "segmentation segs" "concat (map seg_src segs) = rest"
        by blast
      with l t have "segmentation (Link anchor url # segs) \<and>
          concat (map seg_src (Link anchor url # segs)) = t" by simp
      then show ?thesis ..
    next
      case False
      from Cons have "length r < length t" by simp
      from less [OF this] obtain segs where "segmentation segs" "concat (map seg_src segs) = r"
        by blast
      with False Cons have "segmentation (Plain [c] # segs) \<and>
          concat (map seg_src (Plain [c] # segs)) = t" by simp
      then show ?thesis ..
    qed
  qed
qed

lemma segmentation_plain:
  "0x5B \<notin> set t \<Longrightarrow> segmentation segs \<Longrightarrow> segmentation (Plain t # segs)"
proof -
  assume nb: "0x5B \<notin> set t" and rest: "segmentation segs"
  have "\<not> starts_link (drop i (t @ concat (map seg_src segs)))" if "i < length t" for i
  proof -
    from that have "drop i t \<noteq> []" by simp
    then obtain c r where d: "drop i t = c # r" by (cases "drop i t") auto
    then have "c \<in> set t" by (metis in_set_dropD list.set_intros(1))
    with nb have "c \<noteq> 0x5B" by auto
    from that d have "drop i (t @ concat (map seg_src segs)) = c # r @ concat (map seg_src segs)"
      by simp
    with link_match_not_bracket [OF \<open>c \<noteq> 0x5B\<close>] show ?thesis
      by (simp add: starts_link_match)
  qed
  with rest show ?thesis by simp
qed

lemma segmentation_char:
  "link_match (c # concat (map seg_src segs)) = None \<Longrightarrow> segmentation segs \<Longrightarrow>
   segmentation (Plain [c] # segs)"
  by (simp add: starts_link_match)

lemma segmentation_code [code]:
  "segmentation [] = True"
  "segmentation (Plain t # segs) =
     (list_all (\<lambda>i. \<not> starts_link (drop i (t @ concat (map seg_src segs)))) [0..<length t] \<and>
      segmentation segs)"
  "segmentation (Link anchor url # segs) = (is_link anchor url \<and> segmentation segs)"
  by (auto simp: list_all_iff)

lemma validUris_chunks:
  "validUris gm = {u. u \<noteq> [] \<and> (\<exists>chunk\<in>set gm. \<exists>w. web chunk = Some w \<and> web_uri w = Some u)}"
  by (auto simp: validUris_def has_web_uri_def to_reference_def image_iff split: option.splits)
     (force split: option.splits)+

lemma trim_sides:
  "\<exists>before after. s = before @ trim s @ after \<and> list_all is_space before \<and> list_all is_space after"
proof -
  define before where "before = takeWhile is_space s"
  define mid where "mid = dropWhile is_space s"
  define after where "after = rev (takeWhile is_space (rev mid))"
  have s: "s = before @ mid" by (simp add: before_def mid_def)
  have "rev (takeWhile is_space (rev mid) @ dropWhile is_space (rev mid)) = rev (rev mid)"
    by (simp only: takeWhile_dropWhile_id)
  then have "rev (dropWhile is_space (rev mid)) @ rev (takeWhile is_space (rev mid)) = mid"
    by (simp only: rev_append rev_rev_ident)
  then have m: "mid = trim s @ after"
    by (simp only: after_def trim_def trimEnd_def trimStart_def mid_def)
  have b: "list_all is_space before"
    unfolding before_def list_all_iff by (auto dest: set_takeWhileD)
  have a: "list_all is_space after"
    unfolding after_def list_all_iff by (auto dest: set_takeWhileD)
  from s m b a have "s = before @ trim s @ after \<and> list_all is_space before \<and> list_all is_space after"
    by simp
  then show ?thesis by blast
qed

lemma trim_ends:
  assumes "trim s \<noteq> []"
  shows "\<not> is_space (hd (trim s)) \<and> \<not> is_space (last (trim s))"
proof -
  define mid where "mid = dropWhile is_space s"
  have t: "trim s = rev (dropWhile is_space (rev mid))"
    by (simp add: trim_def trimEnd_def trimStart_def mid_def)
  from assms t have dn: "dropWhile is_space (rev mid) \<noteq> []" by simp
  then have "\<not> is_space (hd (dropWhile is_space (rev mid)))" by (rule hd_dropWhile)
  with dn have l: "\<not> is_space (last (trim s))" by (simp add: t last_rev)
  from dn have mn: "mid \<noteq> []" by auto
  then have hm: "\<not> is_space (hd mid)" unfolding mid_def by (rule hd_dropWhile)
  have "hd (trim s) = hd mid"
  proof -
    from mn obtain c r where m: "mid = c # r" by (cases mid) auto
    with hm have c: "\<not> is_space c" by simp
    have "rev (dropWhile is_space (rev r @ [c])) = c # rev (dropWhile is_space (rev r))"
      using c by (simp add: dropWhile_append)
    with m show ?thesis by (simp add: t)
  qed
  with hm l show ?thesis by simp
qed

text \<open>
  C1, as amended. The grounding uris are the non-empty uris of the accumulated chunks. The
  pass works on the text trimmed of the white space at both ends (a text that is all
  white space makes the stage throw before the pass). The trimmed text has a segmentation
  into links \<open>[anchor](url)\<close> (anchor not empty and without a closing bracket, url
  \<open>http://\<close> or \<open>https://\<close> followed by at least one character, none of them white space
  or a closing parenthesis) and stretches of text in which no such link begins, whatever
  else they hold; and for every such segmentation the pass keeps a link unchanged if its
  url is among the grounding uris, replaces it by exactly its anchor text otherwise, and
  leaves every stretch as it is.
\<close>

theorem hallucinated_links_removed:
  "validUris gm =
     {u. u \<noteq> [] \<and> (\<exists>chunk\<in>set gm. \<exists>w. web chunk = Some w \<and> web_uri w = Some u)} \<and>
   (\<exists>before after. fullText = before @ trim fullText @ after \<and>
        list_all is_space before \<and> list_all is_space after) \<and>
   (trim fullText = [] \<longrightarrow> postprocess fullText gm = Inl (Error response_empty)) \<and>
   (trim fullText \<noteq> [] \<longrightarrow>
      \<not> is_space (hd (trim fullText)) \<and> \<not> is_space (last (trim fullText)) \<and>
      (\<exists>segs. segmentation segs \<and> concat (map seg_src segs) = trim fullText) \<and>
      (\<forall>segs. segmentation segs \<and> concat (map seg_src segs) = trim fullText \<longrightarrow>
         postprocess fullText gm = Inr (concat (map (seg_out (validUris gm)) segs), gm)))"
proof (intro conjI impI allI)
  show "validUris gm =
     {u. u \<noteq> [] \<and> (\<exists>chunk\<in>set gm. \<exists>w. web chunk = Some w \<and> web_uri w = Some u)}"
    by (rule validUris_chunks)
  show "\<exists>before after. fullText = before @ trim fullText @ after \<and>
        list_all is_space before \<and> list_all is_space after"
    by (rule trim_sides)
  show "postprocess fullText gm = Inl (Error response_empty)" if "trim fullText = []"
    using that by (simp add: postprocess_def)
  show "\<not> is_space (hd (trim fullText))" if "trim fullText \<noteq> []"
    using trim_ends [OF that] by simp
  show "\<not> is_space (last (trim fullText))" if "trim fullText \<noteq> []"
    using trim_ends [OF that] by simp
  show "\<exists>segs. segmentation segs \<and> concat (map seg_src segs) = trim fullText"
    by (rule segmentation_exists)
  show "postprocess fullText gm = Inr (concat (map (seg_out (validUris gm)) segs), gm)"
    if "trim fullText \<noteq> []" and "segmentation segs \<and> concat (map seg_src segs) = trim fullText"
    for segs
    using that filter_segments [of segs "validUris gm"] by (simp add: postprocess_def)
qed

text \<open>
  The statement at work on a text with a stray bracket, a link whose url is among the
  grounding uris, one whose url is not, and a relative link.
\<close>

theorem hallucinated_links_removed_witness:
  "postprocess
     (js '' see [1] and [X](https://known.example/a) then [Y](https://unknown.example/b) [rel](/page) '')
     [\<lparr>web = Some \<lparr>web_uri = Some (js ''https://known.example/a''), web_title = None\<rparr>\<rparr>] =
   Inr (js ''see [1] and [X](https://known.example/a) then Y [rel](/page)'',
        [\<lparr>web = Some \<lparr>web_uri = Some (js ''https://known.example/a''), web_title = None\<rparr>\<rparr>])"
proof -
  let ?full = "js '' see [1] and [X](https://known.example/a) then [Y](https://unknown.example/b) [rel](/page) ''"
  let ?meta = "[\<lparr>web = Some \<lparr>web_uri = Some (js ''https://known.example/a''), web_title = None\<rparr>\<rparr>]"
  let ?s1 = "[Plain (js ''rel](/page)'')]"
  let ?s2 = "Plain (js '' '') # Plain [0x5B] # ?s1"
  let ?s3 = "Plain (js '' then '') # Link (js ''Y'') (js ''https://unknown.example/b'') # ?s2"
  let ?s4 = "Plain (js ''1] and '') # Link (js ''X'') (js ''https://known.example/a'') # ?s3"
  let ?segs = "Plain (js ''see '') # Plain [0x5B] # ?s4"
  have g1: "segmentation ?s1"
    by (rule segmentation_plain) (simp_all add: js_def)
  have "segmentation (Plain [0x5B] # ?s1)"
    by (rule segmentation_char [OF _ g1]) (simp add: link_match_def scheme_def js_def)
  then have g2: "segmentation ?s2"
    by (rule segmentation_plain [rotated]) (simp add: js_def)
  have "is_link (js ''Y'') (js ''https://unknown.example/b'')"
    by (simp add: is_link_def http_url_scheme scheme_def url_char_def is_space_def js_def)
  with g2 have "segmentation (Link (js ''Y'') (js ''https://unknown.example/b'') # ?s2)"
    by simp
  then have g3: "segmentation ?s3"
    by (rule segmentation_plain [rotated]) (simp add: js_def)
  have "is_link (js ''X'') (js ''https://known.example/a'')"
    by (simp add: is_link_def http_url_scheme scheme_def url_char_def is_space_def js_def)
  with g3 have "segmentation (Link (js ''X'') (js ''https://known.example/a'') # ?s3)"
    by simp
  then have g4: "segmentation ?s4"
    by (rule segmentation_plain [rotated]) (simp add: js_def)
  have "segmentation (Plain [0x5B] # ?s4)"
    by (rule segmentation_char [OF _ g4]) (simp add: link_match_def scheme_def js_def)
  then have g: "segmentation ?segs"
    by (rule segmentation_plain [rotated]) (simp add: js_def)
  have t: "concat (map seg_src ?segs) = trim ?full"
    by (simp add: trim_def trimStart_def trimEnd_def is_space_def js_def)
  have ne: "trim ?full \<noteq> []"
    unfolding t [symmetric] by (simp add: js_def)
  have v: "validUris ?meta = {js ''https://known.example/a''}"
    by (simp add: validUris_def has_web_uri_def to_reference_def Let_def js_def)
  have out: "concat (map (seg_out {js ''https://known.example/a''}) ?segs) =
             js ''see [1] and [X](https://known.example/a) then Y [rel](/page)''"
    by (simp add: js_def)
  note all = hallucinated_links_removed [of ?meta ?full, THEN conjunct2, THEN conjunct2,
      THEN conjunct2, THEN mp, OF ne]
  note each = all [THEN conjunct2, THEN conjunct2, THEN conjunct2, THEN spec, THEN mp]
  have "postprocess ?full ?meta = Inr (concat (map (seg_out (validUris ?meta)) ?segs), ?meta)"
    by (rule each) (intro conjI g t)
  then show ?thesis
    unfolding v out .
qed

text \<open>
  The claim as stated fails for a link whose url is not an http(s) url: the pass does not
  look at it, so it stays although its url is not among the grounding uris.
\<close>

theorem other_scheme_link_kept_counterexample:
  "js ''ftp://x'' \<notin> validUris [] \<and>
   postprocess (js ''[a](ftp://x)'') [] = Inr (js ''[a](ftp://x)'', [])"
  by (simp add: postprocess_def validUris_def trim_def trimStart_def trimEnd_def is_space_def
        replace_all_def keep_valid_link_def link_match_def scheme_def js_def)
section \<open>Placeholder keys: the round trip\<close>

subsection \<open>Base64\<close>
















subsection \<open>From the string to its UTF-8 octets\<close>












subsection \<open>From the octets back to the string\<close>



















section \<open>Renderer: the keys of the placeholder elements\<close>

lemma replace_all_char:
  "replace_all (char_match c out) s = concat (map (\<lambda>x. if x = c then out else [x]) s)"
proof (induction s)
  case Nil
  show ?case by (simp add: replace_all_def)
next
  case (Cons x s)
  then show ?case by (simp add: replace_all_def char_match_def)
qed

lemma replace_all_char_append:
  "replace_all (char_match c out) (s @ t) = replace_all (char_match c out) s @ replace_all (char_match c out) t"
  by (simp add: replace_all_char)

lemma replace_all_char_absent: "c \<notin> set s \<Longrightarrow> replace_all (char_match c out) s = s"
  by (induction s) (auto simp: replace_all_char)

lemma replace_all_char_set:
  "set (replace_all (char_match c out) s) \<subseteq> set s \<union> set out"
  by (induction s) (auto simp: replace_all_char)

lemma escape_html_append: "escape_html (s @ t) = escape_html s @ escape_html t"
  by (simp add: escape_html_def replace_all_char_append)

lemma escape_html_plain:
  "\<forall>c\<in>set s. c \<notin> {0x26, 0x3C, 0x3E} \<Longrightarrow> escape_html s = s"
proof -
  assume "\<forall>c\<in>set s. c \<notin> {0x26, 0x3C, 0x3E}"
  then have "0x26 \<notin> set s" "0x3C \<notin> set s" "0x3E \<notin> set s" by auto
  then show ?thesis by (simp add: escape_html_def replace_all_char_absent)
qed

lemma escape_html_no_bracket: "0x5B \<notin> set s \<Longrightarrow> 0x5B \<notin> set (escape_html s)"
proof -
  assume a: "0x5B \<notin> set s"
  let ?s1 = "replace_all (char_match 0x26 (js ''&amp;'')) s"
  let ?s2 = "replace_all (char_match 0x3C (js ''&lt;'')) ?s1"
  have 1: "0x5B \<notin> set ?s1"
    using replace_all_char_set [of "0x26" "js ''&amp;''" s] a by (auto simp: js_def)
  have 2: "0x5B \<notin> set ?s2"
    using replace_all_char_set [of "0x3C" "js ''&lt;''" ?s1] 1 by (auto simp: js_def)
  show ?thesis
    unfolding escape_html_def
    using replace_all_char_set [of "0x3E" "js ''&gt;''" ?s2] 2 by (auto simp: js_def)
qed

lemma strip_prefix_other_head: "p \<noteq> [] \<Longrightarrow> c \<noteq> hd p \<Longrightarrow> strip_prefix p (c # r) = None"
  by (cases p) auto

lemma chart_match_not_bracket: "c \<noteq> 0x5B \<Longrightarrow> chart_match (c # r) = None"
  by (simp add: chart_match_def js_def)

lemma image_match_not_bracket: "c \<noteq> 0x5B \<Longrightarrow> image_match (c # r) = None"
  by (simp add: image_match_def js_def)

lemma chart_pass_plain: "0x5B \<notin> set pre \<Longrightarrow> chart_pass json_ok (pre @ s) = pre @ chart_pass json_ok s"
proof -
  assume "0x5B \<notin> set pre"
  then have "\<forall>c\<in>set pre. \<forall>r. chart_match (c # r) = None"
    by (auto intro: chart_match_not_bracket)
  then show ?thesis
    unfolding chart_pass_def by (intro replace_all_plain) simp
qed

lemma chart_pass_image_tag:
  assumes "tag = js ''[IMAGE_GENERATE:{'' \<or> tag = js ''[IMAGE_SCREENSHOT:{''"
  shows "chart_pass json_ok (tag @ s) = tag @ chart_pass json_ok s"
proof -
  obtain rest where t: "tag = 0x5B # rest" and r: "0x5B \<notin> set rest"
    and h: "take 3 rest = js ''IMA''"
    using assms by (auto simp: js_def)
  have "strip_prefix (js ''[INTERACTIVE_CHART:'') (0x5B # rest @ s) = None"
  proof (cases "strip_prefix (js ''[INTERACTIVE_CHART:'') (0x5B # rest @ s)")
    case (Some q)
    then have "0x5B # rest @ s = js ''[INTERACTIVE_CHART:'' @ q" by (rule strip_prefix_Some)
    then have "take 3 (rest @ s) = js ''INT''" by (simp add: js_def)
    moreover have "take 3 (rest @ s) = js ''IMA''"
      using h assms t by (auto simp: js_def)
    ultimately show ?thesis by (simp add: js_def)
  qed simp
  then have "chart_match (0x5B # rest @ s) = None" by (simp add: chart_match_def)
  then have "replace_all (\<lambda>s. case chart_match s of None \<Rightarrow> None
               | Some (len, jsonString) \<Rightarrow> Some (len, chart_replacement json_ok jsonString))
               (0x5B # rest @ s) =
             0x5B # replace_all (\<lambda>s. case chart_match s of None \<Rightarrow> None
               | Some (len, jsonString) \<Rightarrow> Some (len, chart_replacement json_ok jsonString)) (rest @ s)"
    by (simp add: replace_all_def)
  with chart_pass_plain [OF r, of json_ok s] show ?thesis
    by (simp add: chart_pass_def t)
qed


lemma replace_try_from_skip: "replace_try_from m (length xs) (xs @ ys) = replace_try_from m 0 ys"
  by (induction xs) simp_all

lemma replace_try_plain:
  "\<forall>c\<in>set pre. \<forall>r. m (c # r) = None \<Longrightarrow>
   replace_try_from m 0 (pre @ s) = map_sum id ((@) pre) (replace_try_from m 0 s)"
proof (induction pre)
  case Nil
  show ?case by (cases "replace_try_from m 0 s") simp_all
next
  case (Cons c pre)
  from Cons.prems have p: "\<forall>c\<in>set pre. \<forall>r. m (c # r) = None"
    and n: "m (c # pre @ s) = None" by simp_all
  note ih = Cons.IH [OF p]
  show ?case
    by (cases "replace_try_from m 0 s") (simp_all add: ih n)
qed

lemma replace_try_match:
  assumes "m (matched @ rest) = Some (length matched, Inr out)" and "matched \<noteq> []"
  shows "replace_try_from m 0 (matched @ rest) = map_sum id ((@) out) (replace_try_from m 0 rest)"
proof -
  from assms(2) obtain c cs where mc: "matched = c # cs" by (cases matched) auto
  show ?thesis
    using assms(1) by (simp add: mc replace_try_from_skip)
qed

lemma find_close_first:
  "0x5D \<notin> set body \<Longrightarrow> find_close (body @ 0x7D # 0x5D # rest) = Some (length body)"
proof (induction body)
  case Nil
  show ?case by simp
next
  case (Cons c body)
  then have ih: "find_close (body @ 0x7D # 0x5D # rest) = Some (length body)"
    and c: "c \<noteq> 0x5D" by simp_all
  show ?case
  proof (cases body)
    case Nil
    with ih show ?thesis by simp
  next
    case (Cons d body')
    with Cons.prems have "d \<noteq> 0x5D" by simp
    with ih Cons show ?thesis by simp
  qed
qed

lemma image_match_placeholder:
  assumes "tag = js ''[IMAGE_GENERATE:{'' \<or> tag = js ''[IMAGE_SCREENSHOT:{''"
    and "0x5D \<notin> set body"
  shows "image_match (tag @ body @ js ''}]'' @ rest) = Some (length (tag @ body @ js ''}]''))"
proof -
  have c: "body @ js ''}]'' @ rest = body @ 0x7D # 0x5D # rest" by (simp add: js_def)
  have f: "find_close (body @ js ''}]'' @ rest) = Some (length body)"
    unfolding c by (rule find_close_first [OF assms(2)])
  from assms(1) show ?thesis
  proof
    assume t: "tag = js ''[IMAGE_GENERATE:{''"
    have "strip_prefix (js ''[IMAGE_GENERATE:{'') (js ''[IMAGE_GENERATE:{'' @ body @ js ''}]'' @ rest) =
            Some (body @ js ''}]'' @ rest)"
      by (rule strip_prefix_append)
    then show ?thesis by (simp add: image_match_def t f) (simp add: js_def)
  next
    assume t: "tag = js ''[IMAGE_SCREENSHOT:{''"
    have n: "strip_prefix (js ''[IMAGE_GENERATE:{'') (js ''[IMAGE_SCREENSHOT:{'' @ body @ js ''}]'' @ rest) = None"
      by (simp add: js_def)
    have "strip_prefix (js ''[IMAGE_SCREENSHOT:{'') (js ''[IMAGE_SCREENSHOT:{'' @ body @ js ''}]'' @ rest) =
            Some (body @ js ''}]'' @ rest)"
      by (rule strip_prefix_append)
    then show ?thesis by (simp add: image_match_def t f n) (simp add: js_def)
  qed
qed

lemma image_pass_plain:
  assumes "0x5B \<notin> set pre"
  shows "image_pass (pre @ s) = map_sum id ((@) pre) (image_pass s)"
proof -
  from assms have "\<forall>c\<in>set pre. \<forall>r. image_match (c # r) = None"
    by (auto intro: image_match_not_bracket)
  then show ?thesis
    unfolding image_pass_def by (intro replace_try_plain) simp
qed

lemma image_pass_placeholder:
  assumes "image_match (ph @ rest) = Some (length ph)" and "ph \<noteq> []"
    and "encodeUnicode ph = Inr k"
  shows "image_pass (ph @ rest) = map_sum id ((@) (image_wrapper k)) (image_pass rest)"
  unfolding image_pass_def
  by (rule replace_try_match) (simp_all add: assms)

lemma well_formed_append: "well_formed a \<Longrightarrow> well_formed b \<Longrightarrow> well_formed (a @ b)"
proof (induction a rule: well_formed.induct)
  case 1
  then show ?case by simp
next
  case (2 c cs)
  from "2.prems"(1) have nt: "\<not> is_trail c" by (simp split: if_splits)
  show ?case
  proof (cases "is_lead c")
    case True
    with "2.prems"(1) nt obtain d ds where cs: "cs = d # ds" and d: "is_trail d" and w: "well_formed ds"
      by (cases cs) auto
    from "2.IH"(1) [OF nt True cs w "2.prems"(2)] nt True cs d show ?thesis by simp
  next
    case False
    with "2.prems"(1) nt have c: "c < 65536" and w: "well_formed cs" by simp_all
    from "2.IH"(2) [OF nt False w "2.prems"(2)] nt False c show ?thesis by simp
  qed
qed


lemma find_close_at:
  "(\<forall>x y. body @ js ''}]'' = x @ js ''}]'' @ y \<longrightarrow> y = []) \<Longrightarrow>
   find_close (body @ 0x7D # 0x5D # rest) = Some (length body)"
proof (induction body)
  case Nil
  show ?case by simp
next
  case (Cons c body)
  have sub: "\<forall>x y. body @ js ''}]'' = x @ js ''}]'' @ y \<longrightarrow> y = []"
  proof (intro allI impI)
    fix x y assume "body @ js ''}]'' = x @ js ''}]'' @ y"
    then have "(c # body) @ js ''}]'' = (c # x) @ js ''}]'' @ y" by simp
    with Cons.prems show "y = []" by blast
  qed
  note ih = Cons.IH [OF sub]
  obtain d r where dr: "body @ 0x7D # 0x5D # rest = d # r"
    by (cases "body @ 0x7D # 0x5D # rest") auto
  have "\<not> (c = 0x7D \<and> d = 0x5D)"
  proof
    assume cd: "c = 0x7D \<and> d = 0x5D"
    with dr obtain b where b: "body = 0x5D # b" by (cases body) auto
    with cd have "(c # body) @ js ''}]'' = [] @ js ''}]'' @ (b @ js ''}]'')" by (simp add: js_def)
    with Cons.prems have "b @ js ''}]'' = []" by blast
    then show False by (simp add: js_def)
  qed
  with ih dr show ?case by auto
qed

lemma find_close_sound:
  "find_close r = Some i \<Longrightarrow>
   (\<exists>y. r = take i r @ 0x7D # 0x5D # y) \<and> i < length r \<and>
   (\<forall>x z. take i r @ js ''}]'' = x @ js ''}]'' @ z \<longrightarrow> z = [])"
proof (induction r arbitrary: i rule: find_close.induct)
  case (1 c d r)
  show ?case
  proof (cases "c = 0x7D \<and> d = 0x5D")
    case True
    with "1.prems" have i: "i = 0" by simp
    have "\<forall>x z. js ''}]'' = x @ js ''}]'' @ z \<longrightarrow> z = []"
    proof (intro allI impI)
      fix x z :: jsstring assume "js ''}]'' = x @ js ''}]'' @ z"
      then have "length (js ''}]'') = length (x @ js ''}]'' @ z)" by simp
      then show "z = []" by simp
    qed
    with True i show ?thesis by simp
  next
    case False
    with "1.prems" obtain j where j: "find_close (d # r) = Some j" and i: "i = Suc j"
      by auto
    from "1.IH" [OF False j] obtain y where y: "d # r = take j (d # r) @ 0x7D # 0x5D # y"
      and lt: "j < length (d # r)"
      and u: "\<forall>x z. take j (d # r) @ js ''}]'' = x @ js ''}]'' @ z \<longrightarrow> z = []"
      by blast
    define b where "b = take j (d # r)"
    have t: "take i (c # d # r) = c # b" by (simp add: i b_def)
    from y have whole: "c # d # r = take i (c # d # r) @ 0x7D # 0x5D # y"
      unfolding t b_def by simp
    have uniq: "\<forall>x z. (c # b) @ js ''}]'' = x @ js ''}]'' @ z \<longrightarrow> z = []"
    proof (intro allI impI)
      fix x z assume e: "(c # b) @ js ''}]'' = x @ js ''}]'' @ z"
      show "z = []"
      proof (cases x)
        case Nil
        with e have c: "c = 0x7D" and bb: "b @ js ''}]'' = 0x5D # z" by (simp_all add: js_def)
        have "b \<noteq> []" using bb by (auto simp: js_def)
        then obtain b' where "b = d # b'" using y unfolding b_def [symmetric]
          by (cases b) auto
        with bb have "d = 0x5D" by simp
        with c False show ?thesis by simp
      next
        case (Cons c' x')
        with e have "b @ js ''}]'' = x' @ js ''}]'' @ z" by simp
        with u show ?thesis unfolding b_def by blast
      qed
    qed
    have c1: "\<exists>y. c # d # r = take i (c # d # r) @ 0x7D # 0x5D # y"
      using whole by blast
    have c2: "i < length (c # d # r)" using lt i by simp
    have c3: "\<forall>x z. take i (c # d # r) @ js ''}]'' = x @ js ''}]'' @ z \<longrightarrow> z = []"
      using uniq unfolding t .
    from c1 c2 c3 show ?thesis by (intro conjI)
  qed
qed simp_all


lemma image_match_is_placeholder:
  assumes "is_placeholder p"
  shows "image_match (p @ rest) = Some (length p)"
proof -
  from assms obtain tag body where
    tag: "tag = js ''[IMAGE_GENERATE:{'' \<or> tag = js ''[IMAGE_SCREENSHOT:{''"
    and p: "p = tag @ body @ js ''}]''"
    and u: "\<forall>x y. body @ js ''}]'' = x @ js ''}]'' @ y \<longrightarrow> y = []"
    unfolding is_placeholder_def by blast
  have c: "body @ js ''}]'' @ rest = body @ 0x7D # 0x5D # rest" by (simp add: js_def)
  have f: "find_close (body @ js ''}]'' @ rest) = Some (length body)"
    unfolding c by (rule find_close_at [OF u])
  from tag show ?thesis
  proof
    assume t: "tag = js ''[IMAGE_GENERATE:{''"
    have "strip_prefix (js ''[IMAGE_GENERATE:{'') (js ''[IMAGE_GENERATE:{'' @ body @ js ''}]'' @ rest) =
            Some (body @ js ''}]'' @ rest)"
      by (rule strip_prefix_append)
    then show ?thesis by (simp add: image_match_def p t f) (simp add: js_def)
  next
    assume t: "tag = js ''[IMAGE_SCREENSHOT:{''"
    have n: "strip_prefix (js ''[IMAGE_GENERATE:{'') (js ''[IMAGE_SCREENSHOT:{'' @ body @ js ''}]'' @ rest) = None"
      by (simp add: js_def)
    have "strip_prefix (js ''[IMAGE_SCREENSHOT:{'') (js ''[IMAGE_SCREENSHOT:{'' @ body @ js ''}]'' @ rest) =
            Some (body @ js ''}]'' @ rest)"
      by (rule strip_prefix_append)
    then show ?thesis by (simp add: image_match_def p t f n) (simp add: js_def)
  qed
qed

lemma image_match_sound:
  assumes "image_match s = Some n"
  shows "is_placeholder (take n s) \<and> n \<le> length s \<and> 0 < n"
proof -
  from assms obtain tag r i where
    tag: "tag = js ''[IMAGE_GENERATE:{'' \<or> tag = js ''[IMAGE_SCREENSHOT:{''"
    and sp: "strip_prefix tag s = Some r" and fc: "find_close r = Some i"
    and n: "n = length tag + i + 2"
    by (auto simp: image_match_def split: option.splits)
  from strip_prefix_Some [OF sp] have s: "s = tag @ r" .
  from find_close_sound [OF fc] obtain y where r: "r = take i r @ 0x7D # 0x5D # y"
    and lt: "i < length r"
    and u: "\<forall>x z. take i r @ js ''}]'' = x @ js ''}]'' @ z \<longrightarrow> z = []"
    by blast
  define body where "body = take i r"
  from lt have lb: "length body = i" by (simp add: body_def)
  have s': "s = (tag @ body @ js ''}]'') @ y"
    using r by (simp add: s body_def js_def)
  have len: "length (tag @ body @ js ''}]'') = n" by (simp add: n lb js_def)
  from s' len have t: "take n s = tag @ body @ js ''}]''" by (metis append_eq_conv_conj)
  have "is_placeholder (tag @ body @ js ''}]'')"
    unfolding is_placeholder_def using tag u body_def by blast
  moreover from s' len have "n \<le> length s" by (metis le_add1 length_append)
  moreover have "0 < n" by (simp add: n)
  ultimately show ?thesis by (simp add: t)
qed

lemma starts_placeholder_match [code]: "starts_placeholder s = (image_match s \<noteq> None)"
proof
  assume "starts_placeholder s"
  then obtain p rest where "is_placeholder p" "s = p @ rest"
    by (auto simp: starts_placeholder_def)
  with image_match_is_placeholder [of p rest] show "image_match s \<noteq> None" by simp
next
  assume "image_match s \<noteq> None"
  then obtain n where n: "image_match s = Some n" by auto
  from image_match_sound [OF n] have "is_placeholder (take n s)" by simp
  moreover have "s = take n s @ drop n s" by simp
  ultimately show "starts_placeholder s" unfolding starts_placeholder_def by blast
qed












lemma placement_plain:
  "0x5B \<notin> set t \<Longrightarrow> placement ps \<Longrightarrow> placement (Stretch t # ps)"
proof -
  assume nb: "0x5B \<notin> set t" and rest: "placement ps"
  have "\<not> starts_placeholder (drop i (t @ concat (map piece_src ps)))" if "i < length t" for i
  proof -
    from that have "drop i t \<noteq> []" by simp
    then obtain c r where d: "drop i t = c # r" by (cases "drop i t") auto
    then have "c \<in> set t" by (metis in_set_dropD list.set_intros(1))
    with nb have "c \<noteq> 0x5B" by auto
    from that d have "drop i (t @ concat (map piece_src ps)) = c # r @ concat (map piece_src ps)"
      by simp
    with image_match_not_bracket [OF \<open>c \<noteq> 0x5B\<close>] show ?thesis
      by (simp add: starts_placeholder_match)
  qed
  with rest show ?thesis by simp
qed

lemma placement_char:
  "image_match (c # concat (map piece_src ps)) = None \<Longrightarrow> placement ps \<Longrightarrow>
   placement (Stretch [c] # ps)"
  by (simp add: starts_placeholder_match)

lemma placement_code [code]:
  "placement [] = True"
  "placement (Stretch t # ps) =
     (list_all (\<lambda>i. \<not> starts_placeholder (drop i (t @ concat (map piece_src ps)))) [0..<length t] \<and>
      placement ps)"
  "placement (Placeholder p # ps) = (is_placeholder p \<and> placement ps)"
  by (auto simp: list_all_iff)








lemma replace_from_numeral:
  "replace_from m (numeral k) (c # cs) = replace_from m (pred_numeral k) cs"
  by (simp add: numeral_eq_Suc)

lemma replace_try_from_numeral:
  "replace_try_from m (numeral k) (c # cs) = replace_try_from m (pred_numeral k) cs"
  by (simp add: numeral_eq_Suc)

lemma encodeUnicode_escaped_example: "encodeUnicode (js ''[IMAGE_GENERATE:{&amp;}]'') = Inr (js ''W0lNQUdFX0dFTkVSQVRFOnsmYW1wO31d'')"
  by (simp add: encodeUnicode_def js_def unescaped_def is_trail_def is_lead_def utf8_def
        percent_upper_def hex_upper_def replace_all_def escape_match_def upper_hex_value_def
        fromCharCode_def btoa_def b64_char_def replace_from_numeral)

lemma image_pass_escaped_example: "image_pass (js ''[IMAGE_GENERATE:{&amp;}]'') = Inr (image_wrapper (js ''W0lNQUdFX0dFTkVSQVRFOnsmYW1wO31d''))"
proof -
  have m: "image_match (js ''[IMAGE_GENERATE:{&amp;}]'') = Some (length (js ''[IMAGE_GENERATE:{&amp;}]''))"
    by code_simp
  have "image_pass (js ''[IMAGE_GENERATE:{&amp;}]'' @ []) =
          map_sum id ((@) (image_wrapper (js ''W0lNQUdFX0dFTkVSQVRFOnsmYW1wO31d''))) (image_pass [])"
    by (rule image_pass_placeholder) (simp_all add: m encodeUnicode_escaped_example, simp add: js_def)
  then show ?thesis by (simp add: image_pass_def)
qed

text \<open>
  Besides, the renderer escapes \<open>&\<close>, \<open><\<close> and \<open>>\<close> before it looks for placeholders, so
  the key of a placeholder with one of these characters decodes to the escaped text, not
  to the source text under which the image map holds its entry.
\<close>

lemma placeholder_key_after_escaping:
  "renderMarkdownToHtml (\<lambda>j. True) id (js ''[IMAGE_GENERATE:{&}]'') =
     Inr (image_wrapper (js ''W0lNQUdFX0dFTkVSQVRFOnsmYW1wO31d'')) \<and>
   decodeUnicode (js ''W0lNQUdFX0dFTkVSQVRFOnsmYW1wO31d'') =
     Inr (js ''[IMAGE_GENERATE:{&amp;}]'')"
proof -
  have e: "escape_html (js ''[IMAGE_GENERATE:{&}]'') = js ''[IMAGE_GENERATE:{&amp;}]''"
    by code_simp
  have c: "chart_pass (\<lambda>j. True) (js ''[IMAGE_GENERATE:{&amp;}]'') = js ''[IMAGE_GENERATE:{&amp;}]''"
    by code_simp
  have d: "decodeUnicode (js ''W0lNQUdFX0dFTkVSQVRFOnsmYW1wO31d'') = Inr (js ''[IMAGE_GENERATE:{&amp;}]'')"
    by code_simp
  show ?thesis
    by (simp add: renderMarkdownToHtml_def e c image_pass_escaped_example d)
qed

section \<open>Chart placeholders whose payload holds a closing bracket\<close>

lemma image_pass_step:
  "image_match (c # r) = None \<Longrightarrow> image_pass (c # r) = map_sum id ((#) c) (image_pass r)"
  by (simp add: image_pass_def)

lemma image_pass_one_bracket:
  assumes "0x5B \<notin> set a" and "0x5B \<notin> set b" and "image_match (0x5B # b) = None"
  shows "image_pass (a @ 0x5B # b) = Inr (a @ 0x5B # b)"
proof -
  have e: "image_pass [] = Inr []" by (simp add: image_pass_def)
  have "image_pass (b @ []) = map_sum id ((@) b) (image_pass [])"
    by (rule image_pass_plain [OF assms(2)])
  then have b: "image_pass b = Inr b" by (simp add: e)
  have "image_pass (0x5B # b) = Inr (0x5B # b)"
    by (simp add: image_pass_step [OF assms(3)] b)
  with image_pass_plain [OF assms(1), of "0x5B # b"] show ?thesis by simp
qed

lemma image_pass_no_bracket: "0x5B \<notin> set a \<Longrightarrow> image_pass a = Inr a"
  using image_pass_plain [of a "[]"] by (simp add: image_pass_def)

lemma chart_pass_missing_comma:
  "chart_pass json_ok (js ''Intro '' @ chart_missing_comma @ js '' end'') =
     js ''Intro '' @ chart_replacement json_ok chart_group_found @ js ''}] end''"
proof -
  let ?m = "\<lambda>s. case chart_match s of None \<Rightarrow> None
              | Some (len, jsonString) \<Rightarrow> Some (len, chart_replacement json_ok jsonString)"
  define matched where "matched = js ''[INTERACTIVE_CHART:'' @ chart_group_found @ js '']''"
  have split: "chart_missing_comma @ js '' end'' = matched @ js ''}] end''"
    by (simp add: chart_missing_comma_def chart_group_found_def matched_def js_def)
  have sp: "strip_prefix (js ''[INTERACTIVE_CHART:'')
              (js ''[INTERACTIVE_CHART:'' @ chart_group_found @ js '']'' @ js ''}] end'') =
            Some (chart_group_found @ js '']'' @ js ''}] end'')"
    by (rule strip_prefix_append)
  have g: "0x5D \<notin> set chart_group_found" by (simp add: chart_group_found_def js_def)
  have br: "js '']'' @ js ''}] end'' = 0x5D # js ''}] end''" by (simp add: js_def)
  have tw0: "takeWhile (\<lambda>x. x \<noteq> 0x5D) (chart_group_found @ 0x5D # js ''}] end'') = chart_group_found"
    by (rule takeWhile_stop) (use g in auto)
  have tw: "takeWhile (\<lambda>x. x \<noteq> 0x5D) (chart_group_found @ js '']'' @ js ''}] end'') = chart_group_found"
    unfolding br by (rule tw0)
  have cm: "chart_match (matched @ js ''}] end'') = Some (length matched, chart_group_found)"
    unfolding matched_def using sp tw
    by (simp add: chart_match_def Let_def) (simp add: js_def)
  have ne: "matched \<noteq> []" by (simp add: matched_def js_def)
  have "?m (matched @ js ''}] end'') = Some (length matched, chart_replacement json_ok chart_group_found)"
    by (simp add: cm)
  then have "replace_all ?m (matched @ js ''}] end'') =
          chart_replacement json_ok chart_group_found @ replace_all ?m (js ''}] end'')"
    using ne by (rule replace_all_match)
  then have 1: "chart_pass json_ok (matched @ js ''}] end'') =
          chart_replacement json_ok chart_group_found @ chart_pass json_ok (js ''}] end'')"
    by (simp add: chart_pass_def)
  have nb: "0x5B \<notin> set (js ''}] end'')" "0x5B \<notin> set (js ''Intro '')" by (simp_all add: js_def)
  have 2: "chart_pass json_ok (js ''}] end'') = js ''}] end''"
    using chart_pass_plain [OF nb(1), of json_ok "[]"] by (simp add: chart_pass_def replace_all_def)
  show ?thesis
    using chart_pass_plain [OF nb(2), of json_ok "chart_missing_comma @ js '' end''"]
    by (simp add: split 1 2)
qed

text \<open>
  C4. The chart expression \<^verbatim>\<open>/\[INTERACTIVE_CHART:([\s\S]*?)\]/gs\<close> ends its lazy group at
  the first closing bracket, so for a payload that holds an array the match stops inside
  the payload. For the markdown \<open>Intro [INTERACTIVE_CHART:{"data":[1 2]}] end\<close>, whose
  array lacks a comma, the text parsed is \<open>{"data":[1 2\<close>; whatever \<open>JSON.parse\<close> makes of
  it, the replacement (the error element when it is rejected) stands in the place of
  \<open>[INTERACTIVE_CHART:{"data":[1 2]\<close> only, and the end \<open>}]\<close> of the placeholder stays in
  the text that the later passes receive. The claim asks for the error element in the
  place of the whole placeholder and for the rest of the document as it would be without
  the chart.
\<close>

theorem chart_with_array_leaves_rest:
  "renderMarkdownToHtml json_ok later_passes (js ''Intro '' @ chart_missing_comma @ js '' end'') =
     Inr (later_passes (js ''Intro '' @ chart_replacement json_ok chart_group_found @ js ''}] end''))"
proof -
  have plain: "\<forall>c\<in>set (js ''Intro '' @ chart_missing_comma @ js '' end''). c \<notin> {0x26, 0x3C, 0x3E}"
    by (simp add: chart_missing_comma_def js_def)
  have e: "escape_html (js ''Intro '' @ chart_missing_comma @ js '' end'') =
           js ''Intro '' @ chart_missing_comma @ js '' end''"
    by (rule escape_html_plain [OF plain])
  have i: "image_pass (js ''Intro '' @ chart_replacement json_ok chart_group_found @ js ''}] end'') =
           Inr (js ''Intro '' @ chart_replacement json_ok chart_group_found @ js ''}] end'')"
  proof (cases "json_ok chart_group_found")
    case False
    then have r: "chart_replacement json_ok chart_group_found = chart_error"
      by (simp add: chart_replacement_def)
    have "0x5B \<notin> set (js ''Intro '' @ chart_error @ js ''}] end'')"
      by (simp add: chart_error_def js_def)
    then show ?thesis unfolding r by (rule image_pass_no_bracket)
  next
    case True
    define a where "a = js ''Intro '' @ js ''<div class='' @ [0x22] @ js ''chart-container'' @ [0x22] @
      js ''><canvas data-chart-data='' @ [0x22] @ js ''{&quot;data&quot;:''"
    define b where "b = js ''1 2'' @ [0x22] @ js ''></canvas></div>'' @ js ''}] end''"
    have q: "replace_all (char_match 0x22 (js ''&quot;'')) chart_group_found = js ''{&quot;data&quot;:[1 2''"
      by (simp add: replace_all_char chart_group_found_def js_def)
    have r: "js ''Intro '' @ chart_replacement json_ok chart_group_found @ js ''}] end'' = a @ 0x5B # b"
      using True by (simp add: chart_replacement_def chart_container_def q a_def b_def) (simp add: js_def)
    have na: "0x5B \<notin> set a" by (simp add: a_def js_def)
    have nb: "0x5B \<notin> set b" by (simp add: b_def js_def)
    have m: "image_match (0x5B # b) = None" by (simp add: image_match_def b_def js_def)
    show ?thesis unfolding r by (rule image_pass_one_bracket [OF na nb m])
  qed
  show ?thesis
    by (simp add: renderMarkdownToHtml_def e chart_pass_missing_comma i)
qed

section \<open>decodeUnicode never throws\<close>

text \<open>
  C10. For every input string \<open>decodeUnicode\<close> returns a string, and when the decoding in
  its \<open>try\<close> block throws (the input is not valid base64, or its octets are not valid
  UTF-8) it returns the input unchanged.
\<close>

theorem decodeUnicode_total:
  "(\<exists>r. decodeUnicode str = Inr r) \<and>
   (isl (decodeUnicode_try str) \<longrightarrow> decodeUnicode str = Inr str)"
  by (cases "decodeUnicode_try str") (simp_all add: decodeUnicode_def)

theorem decodeUnicode_total_witness:
  "decodeUnicode_try (js ''abc'') = Inl URIError \<and>
   decodeUnicode_try (js ''a!'') = Inl InvalidCharacterError \<and>
   decodeUnicode (js ''abc'') = Inr (js ''abc'') \<and>
   decodeUnicode (js ''a!'') = Inr (js ''a!'')"
proof -
  have t: "decodeUnicode_try (js ''abc'') = Inl URIError" by code_simp
  have u: "decodeUnicode_try (js ''a!'') = Inl InvalidCharacterError" by code_simp
  from t decodeUnicode_total [of "js ''abc''"] have "decodeUnicode (js ''abc'') = Inr (js ''abc'')"
    by simp
  moreover from u decodeUnicode_total [of "js ''a!''"] have "decodeUnicode (js ''a!'') = Inr (js ''a!'')"
    by simp
  ultimately show ?thesis using t u by simp
qed

section \<open>History cap\<close>

lemma itemWithoutImages_fields:
  "itemWithoutImages item =
     \<lparr>article_id = article_id item, theme = theme item, persona = persona item,
      markdown = markdown item, html = html item, references = references item,
      enhancements = enhancements item, faqs = faqs item, performance = performance item,
      creativeDirection = creativeDirection item, factCheck = factCheck item\<rparr>"
  by (simp add: itemWithoutImages_def ArticleMeta.truncate_def)

text \<open>
  C9, as amended. The record put into the metadata list holds every field of the new
  article but its binary assets. For a state holding 50 articles: when the write of the
  new article's assets is not rejected (it completes, or the store cannot be opened and
  the failure is logged), adding the article removes exactly the oldest article (the
  last of the list) from the metadata list and leaves 50 records, the new one first. The
  asset record of the oldest article is deleted when the deletion completes and stays
  when the store cannot be opened for it; in both cases the list is then written to the
  persistent history, if that can be written. When the deletion is rejected the error
  propagates, the list changed in memory and not written. For a state with fewer than 50
  articles nothing is removed. Whatever the number of articles, when the write of the new
  article's assets is rejected the error propagates and nothing is added or removed.
\<close>

theorem history_cap_eviction:
  "itemWithoutImages item =
     \<lparr>article_id = article_id item, theme = theme item, persona = persona item,
      markdown = markdown item, html = html item, references = references item,
      enhancements = enhancements item, faqs = faqs item, performance = performance item,
      creativeDirection = creativeDirection item, factCheck = factCheck item\<rparr> \<and>
   addArticleToHistory (Failed e) deleted writable item st = (Inl e, st) \<and>
   (\<forall>saved assets.
      (saved = Completed \<and>
         assets = (articleImages st)(article_id item \<mapsto> (coverImage item, imageMap item)) \<or>
       saved = Caught \<and> assets = articleImages st) \<longrightarrow>
      (length (articles st) = 50 \<longrightarrow>
         length (itemWithoutImages item # butlast (articles st)) = 50 \<and>
         addArticleToHistory saved Completed writable item st =
           (Inr (),
            st\<lparr>articles := itemWithoutImages item # butlast (articles st),
               articleImages := assets(article_id (last (articles st)) := None),
               articleHistory :=
                 if writable then Some (itemWithoutImages item # butlast (articles st))
                 else articleHistory st\<rparr>) \<and>
         addArticleToHistory saved Caught writable item st =
           (Inr (),
            st\<lparr>articles := itemWithoutImages item # butlast (articles st),
               articleImages := assets,
               articleHistory :=
                 if writable then Some (itemWithoutImages item # butlast (articles st))
                 else articleHistory st\<rparr>) \<and>
         addArticleToHistory saved (Failed e) writable item st =
           (Inl e,
            st\<lparr>articles := itemWithoutImages item # butlast (articles st),
               articleImages := assets\<rparr>)) \<and>
      (length (articles st) < 50 \<longrightarrow>
         addArticleToHistory saved deleted writable item st =
           (Inr (),
            st\<lparr>articles := itemWithoutImages item # articles st,
               articleImages := assets,
               articleHistory :=
                 if writable then Some (itemWithoutImages item # articles st)
                 else articleHistory st\<rparr>)))"
proof (intro conjI allI impI)
  show "itemWithoutImages item =
     \<lparr>article_id = article_id item, theme = theme item, persona = persona item,
      markdown = markdown item, html = html item, references = references item,
      enhancements = enhancements item, faqs = faqs item, performance = performance item,
      creativeDirection = creativeDirection item, factCheck = factCheck item\<rparr>"
    by (rule itemWithoutImages_fields)
  show "addArticleToHistory (Failed e) deleted writable item st = (Inl e, st)"
    by (simp add: addArticleToHistory_def saveImagesToDb_def)
next
  fix saved assets
  assume s: "saved = Completed \<and>
         assets = (articleImages st)(article_id item \<mapsto> (coverImage item, imageMap item)) \<or>
       saved = Caught \<and> assets = articleImages st"
  define st1 where "st1 = st\<lparr>articleImages := assets\<rparr>"
  from s have sv: "saveImagesToDb saved (article_id item) (coverImage item) (imageMap item) st =
      (Inr (), st1)"
    by (auto simp: saveImagesToDb_def st1_def)
  {
    assume full: "length (articles st) = 50"
    then have ne: "articles st \<noteq> []" by auto
    from full show "length (itemWithoutImages item # butlast (articles st)) = 50" by simp
    show "addArticleToHistory saved Completed writable item st =
           (Inr (),
            st\<lparr>articles := itemWithoutImages item # butlast (articles st),
               articleImages := assets(article_id (last (articles st)) := None),
               articleHistory :=
                 if writable then Some (itemWithoutImages item # butlast (articles st))
                 else articleHistory st\<rparr>)"
      using full ne
      by (simp add: addArticleToHistory_def sv st1_def deleteImagesFromDb_def
            saveArticlesToStorage_def Let_def)
    show "addArticleToHistory saved Caught writable item st =
           (Inr (),
            st\<lparr>articles := itemWithoutImages item # butlast (articles st),
               articleImages := assets,
               articleHistory :=
                 if writable then Some (itemWithoutImages item # butlast (articles st))
                 else articleHistory st\<rparr>)"
      using full ne
      by (simp add: addArticleToHistory_def sv st1_def deleteImagesFromDb_def
            saveArticlesToStorage_def Let_def)
    show "addArticleToHistory saved (Failed e) writable item st =
           (Inl e,
            st\<lparr>articles := itemWithoutImages item # butlast (articles st),
               articleImages := assets\<rparr>)"
      using full ne
      by (simp add: addArticleToHistory_def sv st1_def deleteImagesFromDb_def Let_def)
  }
  {
    assume few: "length (articles st) < 50"
    then show "addArticleToHistory saved deleted writable item st =
           (Inr (),
            st\<lparr>articles := itemWithoutImages item # articles st,
               articleImages := assets,
               articleHistory :=
                 if writable then Some (itemWithoutImages item # articles st)
                 else articleHistory st\<rparr>)"
      by (simp add: addArticleToHistory_def sv st1_def saveArticlesToStorage_def Let_def)
  }
qed

lemma example_history_facts:
  "length (articles (example_history 50)) = 50"
  "length (articles (example_history 3)) < 50"
  "map article_id (butlast (articles (example_history 50))) = map int (rev [1..<50])"
  "article_id (last (articles (example_history 50))) = 0"
  "articleImages (example_history 50) =
     (\<lambda>i. if 0 \<le> i \<and> i < 50 then Some (Some (js ''JPEG''), None) else None)"
  "map article_id (articles (example_history 3)) = [2, 1, 0]"
  "articleImages (example_history 3) 0 = Some (Some (js ''JPEG''), None)"
proof -
  show "length (articles (example_history 50)) = 50"
    by (simp add: example_history_def)
  show "length (articles (example_history 3)) < 50"
    by (simp add: example_history_def)
  show "map article_id (butlast (articles (example_history 50))) = map int (rev [1..<50])"
    by (simp add: example_history_def map_butlast [symmetric] butlast_rev tl_upt
          example_meta_def comp_def del: upt_Suc)
  show "article_id (last (articles (example_history 50))) = 0"
    by (simp add: example_history_def last_map last_rev hd_upt example_meta_def del: upt_Suc)
  show "articleImages (example_history 50) =
     (\<lambda>i. if 0 \<le> i \<and> i < 50 then Some (Some (js ''JPEG''), None) else None)"
    by (simp add: example_history_def)
  show "map article_id (articles (example_history 3)) = [2, 1, 0]"
    by (simp add: example_history_def example_meta_def upt_rec)
  show "articleImages (example_history 3) 0 = Some (Some (js ''JPEG''), None)"
    by (simp add: example_history_def)
qed

lemma example_item_facts:
  "article_id (itemWithoutImages example_item) = 50"
  "article_id example_item = 50"
  "coverImage example_item = Some (js ''JPEG'')"
  "imageMap example_item = None"
  by (simp_all add: itemWithoutImages_def example_item_def example_meta_def ArticleMeta.defs
        ArticleHistoryItem.defs)

text \<open>
  The statement at work, both stores working: a 51st article (id 50) added to the
  articles 49, \<dots>, 0 evicts the article 0 with its assets; added to the articles 2, 1, 0
  it evicts nothing.
\<close>

theorem history_cap_eviction_witness:
  "(\<exists>st'. addArticleToHistory Completed Completed True example_item (example_history 50) = (Inr (), st') \<and>
      map article_id (articles st') = 50 # map int (rev [1..<50]) \<and>
      length (articles st') = 50 \<and>
      articleImages st' 0 = None \<and>
      articleImages st' 50 = Some (Some (js ''JPEG''), None) \<and>
      articleImages st' 1 = Some (Some (js ''JPEG''), None) \<and>
      articleHistory st' = Some (articles st')) \<and>
   (\<exists>st'. addArticleToHistory Completed Completed True example_item (example_history 3) = (Inr (), st') \<and>
      map article_id (articles st') = [50, 2, 1, 0] \<and>
      articleImages st' 0 = Some (Some (js ''JPEG''), None))"
proof
  let ?st = "example_history 50"
  let ?assets = "(articleImages ?st)(article_id example_item \<mapsto>
                   (coverImage example_item, imageMap example_item))"
  note general = history_cap_eviction [of example_item _ Completed True ?st,
      THEN conjunct2, THEN conjunct2, THEN spec, THEN spec, THEN mp, of Completed ?assets]
  have "Completed = Completed \<and> ?assets = ?assets \<or> Completed = Caught \<and> ?assets = articleImages ?st"
    by simp
  note cases = general [OF this]
  note full = cases [THEN conjunct1, THEN mp, OF example_history_facts(1)]
  note run = full [THEN conjunct2, THEN conjunct1]
  show "\<exists>st'. addArticleToHistory Completed Completed True example_item ?st = (Inr (), st') \<and>
      map article_id (articles st') = 50 # map int (rev [1..<50]) \<and>
      length (articles st') = 50 \<and>
      articleImages st' 0 = None \<and>
      articleImages st' 50 = Some (Some (js ''JPEG''), None) \<and>
      articleImages st' 1 = Some (Some (js ''JPEG''), None) \<and>
      articleHistory st' = Some (articles st')"
    unfolding run
    by (simp add: example_history_facts example_item_facts del: upt_Suc)
next
  let ?st = "example_history 3"
  let ?assets = "(articleImages ?st)(article_id example_item \<mapsto>
                   (coverImage example_item, imageMap example_item))"
  note general = history_cap_eviction [of example_item _ Completed True ?st,
      THEN conjunct2, THEN conjunct2, THEN spec, THEN spec, THEN mp, of Completed ?assets]
  have "Completed = Completed \<and> ?assets = ?assets \<or> Completed = Caught \<and> ?assets = articleImages ?st"
    by simp
  note cases = general [OF this]
  note run = cases [THEN conjunct2, THEN mp, OF example_history_facts(2)]
  show "\<exists>st'. addArticleToHistory Completed Completed True example_item ?st = (Inr (), st') \<and>
      map article_id (articles st') = [50, 2, 1, 0] \<and>
      articleImages st' 0 = Some (Some (js ''JPEG''), None)"
    unfolding run
    by (simp add: example_history_facts example_item_facts)
qed

text \<open>
  The claim as stated fails when the asset store cannot be opened for the deletion: the
  failure is caught and logged, so the oldest article (id 0) leaves the metadata list
  and its asset record stays.
\<close>

theorem asset_record_kept_counterexample:
  "\<exists>st'. addArticleToHistory Completed Caught True example_item (example_history 50) = (Inr (), st') \<and>
      length (articles (example_history 50)) = 50 \<and>
      article_id (last (articles (example_history 50))) = 0 \<and>
      map article_id (articles st') = 50 # map int (rev [1..<50]) \<and>
      articleImages st' 0 = Some (Some (js ''JPEG''), None)"
proof -
  have ne: "articles (example_history 50) \<noteq> []"
    using example_history_facts(1) by auto
  show ?thesis
    using ne
    by (simp add: addArticleToHistory_def saveImagesToDb_def deleteImagesFromDb_def
          saveArticlesToStorage_def Let_def example_history_facts example_item_facts
          del: upt_Suc)
qed
section \<open>Edits and the cached markup\<close>

lemma cache_ok_itemWithoutImages:
  "cache_ok json_ok later_passes (itemWithoutImages a) = cache_ok json_ok later_passes a"
  by (simp add: cache_ok_def itemWithoutImages_def ArticleMeta.truncate_def)

lemma list_all_update: "list_all P xs \<Longrightarrow> P x \<Longrightarrow> list_all P (xs[i := x])"
  by (induction xs arbitrary: i) (auto split: nat.splits)

lemma findIndex_bound: "findIndex p xs = Some i \<Longrightarrow> i < length xs \<and> p (xs ! i)"
  by (induction xs arbitrary: i) (auto split: if_splits)

lemma findIndex_update: "findIndex p xs = Some i \<Longrightarrow> p x \<Longrightarrow> findIndex p (xs[i := x]) = Some i"
  by (induction xs arbitrary: i) (auto split: if_splits)

lemma updateArticleInHistory_caches:
  assumes "caches_ok json_ok later_passes st" and "cache_ok json_ok later_passes a"
  shows "caches_ok json_ok later_passes (snd (updateArticleInHistory saved writable a st))"
proof -
  from assms(1) have l: "list_all (cache_ok json_ok later_passes) (articles st)"
    by (simp add: caches_ok_def)
  from assms(2) have "cache_ok json_ok later_passes (itemWithoutImages a)"
    by (simp add: cache_ok_itemWithoutImages)
  with l have u: "list_all (cache_ok json_ok later_passes) ((articles st)[i := itemWithoutImages a])" for i
    by (rule list_all_update)
  show ?thesis
    using assms(1) u
    by (cases saved)
       (auto simp: updateArticleInHistory_def saveImagesToDb_def saveArticlesToStorage_def
          caches_ok_def split: option.splits)
qed

lemma renderArticle_caches:
  assumes "caches_ok json_ok later_passes st" and "cache_ok json_ok later_passes article"
  shows "caches_ok json_ok later_passes
           (snd (renderArticle json_ok later_passes saved writable article st))"
proof -
  have st1: "caches_ok json_ok later_passes (st\<lparr>currentArticle := Some b\<rparr>)"
    if "cache_ok json_ok later_passes b" for b
    using assms(1) that by (simp add: caches_ok_def)
  show ?thesis
  proof (cases "html article = []")
    case False
    with st1 [OF assms(2)] show ?thesis by (simp add: renderArticle_def)
  next
    case True
    show ?thesis
    proof (cases "renderMarkdownToHtml json_ok later_passes (markdown article)")
      case (Inl e)
      with True st1 [OF assms(2)] show ?thesis by (simp add: renderArticle_def)
    next
      case (Inr rendered)
      then have ok: "cache_ok json_ok later_passes (article\<lparr>html := rendered\<rparr>)"
        by (simp add: cache_ok_def)
      from st1 [OF ok]
      have "caches_ok json_ok later_passes
              (st\<lparr>currentArticle := Some (article\<lparr>html := rendered\<rparr>)\<rparr>)" .
      from updateArticleInHistory_caches [OF this ok, of saved writable] True Inr
      show ?thesis by (simp add: renderArticle_def)
    qed
  qed
qed

lemma saveEdit_caches:
  assumes "caches_ok json_ok later_passes st"
  shows "caches_ok json_ok later_passes
           (snd (saveEdit json_ok later_passes newMarkdown analysed s1 w1 s2 w2 st))"
proof (cases "currentArticle st")
  case None
  with assms show ?thesis by (simp add: saveEdit_def)
next
  case (Some shown)
  define updated where "updated =
      shown\<lparr>markdown := newMarkdown, html := [],
            performance := carried_performance analysed (performance shown),
            factCheck := Some \<lparr>fc_status = Unchecked, fc_results = []\<rparr>\<rparr>"
  have ok: "cache_ok json_ok later_passes updated" by (simp add: cache_ok_def updated_def)
  obtain r st1 where u: "updateArticleInHistory s1 w1 updated st = (r, st1)"
    by (cases "updateArticleInHistory s1 w1 updated st")
  from updateArticleInHistory_caches [OF assms ok, of s1 w1] u
  have c1: "caches_ok json_ok later_passes st1" by simp
  from renderArticle_caches [OF c1 ok]
  have c2: "caches_ok json_ok later_passes (snd (renderArticle json_ok later_passes s2 w2 updated st1))" .
  from c1 c2 show ?thesis
    by (cases r) (simp_all add: saveEdit_def Some Let_def updated_def [symmetric] u)
qed

lemma proofread_caches:
  assumes "caches_ok json_ok later_passes st"
  shows "caches_ok json_ok later_passes
           (proofread json_ok later_passes response s1 w1 s2 w2 st)"
proof (cases "currentArticle st")
  case None
  with assms show ?thesis by (simp add: proofread_def)
next
  case (Some shown)
  have step: "caches_ok json_ok later_passes
      (case updateArticleInHistory s1 w1 (shown\<lparr>markdown := m, html := []\<rparr>) st of
         (Inl e, st1) \<Rightarrow> st1
       | (Inr u, st1) \<Rightarrow>
           snd (renderArticle json_ok later_passes s2 w2 (shown\<lparr>markdown := m, html := []\<rparr>) st1))"
    for m
  proof -
    define updated where "updated = shown\<lparr>markdown := m, html := []\<rparr>"
    have ok: "cache_ok json_ok later_passes updated" by (simp add: cache_ok_def updated_def)
    obtain r st1 where u: "updateArticleInHistory s1 w1 updated st = (r, st1)"
      by (cases "updateArticleInHistory s1 w1 updated st")
    from updateArticleInHistory_caches [OF assms ok, of s1 w1] u
    have c1: "caches_ok json_ok later_passes st1" by simp
    from renderArticle_caches [OF c1 ok]
    have c2: "caches_ok json_ok later_passes (snd (renderArticle json_ok later_passes s2 w2 updated st1))" .
    from c1 c2 show ?thesis
      unfolding updated_def [symmetric] by (cases r) (simp_all add: u)
  qed
  show ?thesis
    using assms step
    by (simp add: proofread_def Some Let_def split: sum.splits option.splits)
qed

lemma edit_all_stores:
  assumes i: "findIndex (\<lambda>a. article_id a = article_id cleared) (articles st) = Some i"
    and c: "html cleared = []"
  shows "snd (renderArticle json_ok later_passes Completed True cleared
               (snd (updateArticleInHistory Completed True cleared st))) =
     st\<lparr>currentArticle :=
          Some (cleared\<lparr>html := (case renderMarkdownToHtml json_ok later_passes (markdown cleared) of
                                    Inl e \<Rightarrow> [] | Inr rendered \<Rightarrow> rendered)\<rparr>),
        articles :=
          (articles st)[i := itemWithoutImages
             (cleared\<lparr>html := (case renderMarkdownToHtml json_ok later_passes (markdown cleared) of
                                   Inl e \<Rightarrow> [] | Inr rendered \<Rightarrow> rendered)\<rparr>)],
        articleImages :=
          (articleImages st)(article_id cleared \<mapsto> (coverImage cleared, imageMap cleared)),
        articleHistory :=
          Some ((articles st)[i := itemWithoutImages
             (cleared\<lparr>html := (case renderMarkdownToHtml json_ok later_passes (markdown cleared) of
                                   Inl e \<Rightarrow> [] | Inr rendered \<Rightarrow> rendered)\<rparr>)])\<rparr>"
proof -
  define st1 where "st1 = snd (updateArticleInHistory Completed True cleared st)"
  have st1: "st1 =
      st\<lparr>articles := (articles st)[i := itemWithoutImages cleared],
         articleImages := (articleImages st)(article_id cleared \<mapsto> (coverImage cleared, imageMap cleared)),
         articleHistory := Some ((articles st)[i := itemWithoutImages cleared])\<rparr>"
    by (simp add: st1_def updateArticleInHistory_def saveImagesToDb_def saveArticlesToStorage_def i)
  have id: "article_id (itemWithoutImages b) = article_id b" for b :: ArticleHistoryItem
    by (simp add: itemWithoutImages_def ArticleMeta.truncate_def)
  show ?thesis
  proof (cases "renderMarkdownToHtml json_ok later_passes (markdown cleared)")
    case (Inl e)
    from c have e: "cleared\<lparr>html := []\<rparr> = cleared" by simp
    show ?thesis
      unfolding st1_def [symmetric] by (simp add: renderArticle_def st1 Inl c e)
  next
    case (Inr rendered)
    have i': "findIndex (\<lambda>a. article_id a = article_id cleared)
                ((articles st)[i := itemWithoutImages cleared]) = Some i"
      by (rule findIndex_update [OF i]) (simp add: id)
    from Inr c i' show ?thesis
      unfolding st1_def [symmetric]
      by (simp add: renderArticle_def st1 updateArticleInHistory_def saveImagesToDb_def
            saveArticlesToStorage_def)
  qed
qed

lemma render_plain_text:
  assumes "\<forall>c\<in>set s. c \<notin> {0x26, 0x3C, 0x3E, 0x5B}"
  shows "renderMarkdownToHtml json_ok later_passes s = Inr (later_passes s)"
proof -
  from assms have p: "\<forall>c\<in>set s. c \<notin> {0x26, 0x3C, 0x3E}" and b: "0x5B \<notin> set s" by auto
  have e: "escape_html s = s" by (rule escape_html_plain [OF p])
  have c: "chart_pass json_ok s = s"
    using chart_pass_plain [OF b, of json_ok "[]"] by (simp add: chart_pass_def replace_all_def)
  have i: "image_pass s = Inr s" by (rule image_pass_no_bracket [OF b])
  show ?thesis by (simp add: renderMarkdownToHtml_def e c i)
qed

text \<open>
  C8. Both operations that replace the markdown of the article shown, the saving of an
  edit and the proofreading, keep every cache right: if, before, every cached markup (of
  the article shown, of the history list, of the persistent list) is empty or the
  rendering of its article's markdown, then so it is after, whatever the renderer, the
  stores and the generation service do. With the article in the history and the stores
  working, the operation leaves the article with the new markdown and with the rendering
  of the new markdown as its cache (the empty cache if the renderer throws), in the
  article shown, in the history list and in the persistent list alike: the markup cached
  for the old markdown is cleared together with the replacement and never stored with
  the new markdown.
\<close>

theorem edits_clear_cache:
  "(caches_ok json_ok later_passes st \<longrightarrow>
      caches_ok json_ok later_passes
        (snd (saveEdit json_ok later_passes newMarkdown analysed saved_first writable_first
                saved_again writable_again st)) \<and>
      caches_ok json_ok later_passes
        (proofread json_ok later_passes response saved_first writable_first saved_again
           writable_again st)) \<and>
   (\<forall>shown i.
      currentArticle st = Some shown \<and>
      findIndex (\<lambda>a. article_id a = article_id shown) (articles st) = Some i \<longrightarrow>
      (let edited =
             shown\<lparr>markdown := newMarkdown,
                   html := (case renderMarkdownToHtml json_ok later_passes newMarkdown of
                              Inl e \<Rightarrow> [] | Inr rendered \<Rightarrow> rendered),
                   performance := carried_performance analysed (performance shown),
                   factCheck := Some \<lparr>fc_status = Unchecked, fc_results = []\<rparr>\<rparr>
       in saveEdit json_ok later_passes newMarkdown analysed Completed True Completed True st =
            (Inr (),
             st\<lparr>currentArticle := Some edited,
                articles := (articles st)[i := itemWithoutImages edited],
                articleImages :=
                  (articleImages st)(article_id shown \<mapsto> (coverImage shown, imageMap shown)),
                articleHistory := Some ((articles st)[i := itemWithoutImages edited])\<rparr>)) \<and>
      (\<forall>k proofreadMarkdown.
         apiKey st = Some k \<and> k \<noteq> [] \<and> trim proofreadMarkdown \<noteq> [] \<longrightarrow>
         (let edited =
                shown\<lparr>markdown := proofreadMarkdown,
                      html := (case renderMarkdownToHtml json_ok later_passes proofreadMarkdown of
                                 Inl e \<Rightarrow> [] | Inr rendered \<Rightarrow> rendered)\<rparr>
          in proofread json_ok later_passes (Inr (Some proofreadMarkdown))
               Completed True Completed True st =
               st\<lparr>currentArticle := Some edited,
                  articles := (articles st)[i := itemWithoutImages edited],
                  articleImages :=
                    (articleImages st)(article_id shown \<mapsto> (coverImage shown, imageMap shown)),
                  articleHistory := Some ((articles st)[i := itemWithoutImages edited])\<rparr>)))"
proof (intro conjI allI impI)
  assume c: "caches_ok json_ok later_passes st"
  show "caches_ok json_ok later_passes
        (snd (saveEdit json_ok later_passes newMarkdown analysed saved_first writable_first
                saved_again writable_again st))"
    by (rule saveEdit_caches [OF c])
  show "caches_ok json_ok later_passes
        (proofread json_ok later_passes response saved_first writable_first saved_again
           writable_again st)"
    by (rule proofread_caches [OF c])
next
  fix shown i
  assume a: "currentArticle st = Some shown \<and>
      findIndex (\<lambda>a. article_id a = article_id shown) (articles st) = Some i"
  define cleared where "cleared =
      shown\<lparr>markdown := newMarkdown, html := [],
            performance := carried_performance analysed (performance shown),
            factCheck := Some \<lparr>fc_status = Unchecked, fc_results = []\<rparr>\<rparr>"
  have i: "findIndex (\<lambda>a. article_id a = article_id cleared) (articles st) = Some i"
    using a by (simp add: cleared_def)
  have h: "html cleared = []" by (simp add: cleared_def)
  have ok: "fst (updateArticleInHistory Completed True cleared st) = Inr ()"
    by (simp add: updateArticleInHistory_def saveImagesToDb_def split: option.splits)
  have run: "saveEdit json_ok later_passes newMarkdown analysed Completed True Completed True st =
      (Inr (), snd (renderArticle json_ok later_passes Completed True cleared
               (snd (updateArticleInHistory Completed True cleared st))))"
    using a ok
    by (cases "updateArticleInHistory Completed True cleared st")
       (simp add: saveEdit_def Let_def cleared_def [symmetric])
  define edited where "edited =
             shown\<lparr>markdown := newMarkdown,
                   html := (case renderMarkdownToHtml json_ok later_passes newMarkdown of
                              Inl e \<Rightarrow> [] | Inr rendered \<Rightarrow> rendered),
                   performance := carried_performance analysed (performance shown),
                   factCheck := Some \<lparr>fc_status = Unchecked, fc_results = []\<rparr>\<rparr>"
  have md: "markdown cleared = newMarkdown" by (simp add: cleared_def)
  have e: "cleared\<lparr>html := (case renderMarkdownToHtml json_ok later_passes newMarkdown of
                              Inl e \<Rightarrow> [] | Inr rendered \<Rightarrow> rendered)\<rparr> = edited"
    by (rule ArticleHistoryItem.equality) (simp_all add: cleared_def edited_def)
  have ids: "article_id cleared = article_id shown" "coverImage cleared = coverImage shown"
    "imageMap cleared = imageMap shown"
    by (simp_all add: cleared_def)
  note fin = edit_all_stores [OF i h, of json_ok later_passes, unfolded md e ids]
  show "let edited =
             shown\<lparr>markdown := newMarkdown,
                   html := (case renderMarkdownToHtml json_ok later_passes newMarkdown of
                              Inl e \<Rightarrow> [] | Inr rendered \<Rightarrow> rendered),
                   performance := carried_performance analysed (performance shown),
                   factCheck := Some \<lparr>fc_status = Unchecked, fc_results = []\<rparr>\<rparr>
       in saveEdit json_ok later_passes newMarkdown analysed Completed True Completed True st =
            (Inr (),
             st\<lparr>currentArticle := Some edited,
                articles := (articles st)[i := itemWithoutImages edited],
                articleImages :=
                  (articleImages st)(article_id shown \<mapsto> (coverImage shown, imageMap shown)),
                articleHistory := Some ((articles st)[i := itemWithoutImages edited])\<rparr>)"
    unfolding Let_def edited_def [symmetric]
    by (simp only: run fin)
next
  fix shown i k proofreadMarkdown
  assume a: "currentArticle st = Some shown \<and>
      findIndex (\<lambda>a. article_id a = article_id shown) (articles st) = Some i"
    and b: "apiKey st = Some k \<and> k \<noteq> [] \<and> trim proofreadMarkdown \<noteq> []"
  define cleared where "cleared = shown\<lparr>markdown := proofreadMarkdown, html := []\<rparr>"
  have i: "findIndex (\<lambda>a. article_id a = article_id cleared) (articles st) = Some i"
    using a by (simp add: cleared_def)
  have h: "html cleared = []" by (simp add: cleared_def)
  have ok: "fst (updateArticleInHistory Completed True cleared st) = Inr ()"
    by (simp add: updateArticleInHistory_def saveImagesToDb_def split: option.splits)
  have run: "proofread json_ok later_passes (Inr (Some proofreadMarkdown))
               Completed True Completed True st =
      snd (renderArticle json_ok later_passes Completed True cleared
               (snd (updateArticleInHistory Completed True cleared st)))"
    using a b ok
    by (cases "updateArticleInHistory Completed True cleared st")
       (simp add: proofread_def getGenAIClient_def Let_def cleared_def [symmetric])
  define edited where "edited =
                shown\<lparr>markdown := proofreadMarkdown,
                      html := (case renderMarkdownToHtml json_ok later_passes proofreadMarkdown of
                                 Inl e \<Rightarrow> [] | Inr rendered \<Rightarrow> rendered)\<rparr>"
  have md: "markdown cleared = proofreadMarkdown" by (simp add: cleared_def)
  have e: "cleared\<lparr>html := (case renderMarkdownToHtml json_ok later_passes proofreadMarkdown of
                              Inl e \<Rightarrow> [] | Inr rendered \<Rightarrow> rendered)\<rparr> = edited"
    by (rule ArticleHistoryItem.equality) (simp_all add: cleared_def edited_def)
  have ids: "article_id cleared = article_id shown" "coverImage cleared = coverImage shown"
    "imageMap cleared = imageMap shown"
    by (simp_all add: cleared_def)
  note fin = edit_all_stores [OF i h, of json_ok later_passes, unfolded md e ids]
  show "let edited =
                shown\<lparr>markdown := proofreadMarkdown,
                      html := (case renderMarkdownToHtml json_ok later_passes proofreadMarkdown of
                                 Inl e \<Rightarrow> [] | Inr rendered \<Rightarrow> rendered)\<rparr>
          in proofread json_ok later_passes (Inr (Some proofreadMarkdown))
               Completed True Completed True st =
               st\<lparr>currentArticle := Some edited,
                  articles := (articles st)[i := itemWithoutImages edited],
                  articleImages :=
                    (articleImages st)(article_id shown \<mapsto> (coverImage shown, imageMap shown)),
                  articleHistory := Some ((articles st)[i := itemWithoutImages edited])\<rparr>"
    unfolding Let_def edited_def [symmetric]
    by (simp only: run fin)
qed

lemma example_editing_facts:
  "caches_ok json_ok id example_editing"
  "currentArticle example_editing = Some example_shown"
  "findIndex (\<lambda>a. article_id a = article_id example_shown) (articles example_editing) = Some (Suc 0)"
  "apiKey example_editing = Some (js ''secret'')"
  "map markdown (articles example_editing) = [js ''# text'', js ''# text'', js ''# text'']"
  "map html (articles example_editing) = [[], js ''# text'', []]"
proof -
  have r: "renderMarkdownToHtml json_ok id (js ''# text'') = Inr (js ''# text'')"
    using render_plain_text [of "js ''# text''" json_ok id] by (simp add: js_def)
  show "caches_ok json_ok id example_editing"
    by (simp add: caches_ok_def cache_ok_def example_editing_def example_history_def
          example_shown_def example_cached_def example_meta_def ArticleMeta.defs
          ArticleHistoryItem.defs r)
  show "currentArticle example_editing = Some example_shown"
    "findIndex (\<lambda>a. article_id a = article_id example_shown) (articles example_editing) = Some (Suc 0)"
    "apiKey example_editing = Some (js ''secret'')"
    "map markdown (articles example_editing) = [js ''# text'', js ''# text'', js ''# text'']"
    "map html (articles example_editing) = [[], js ''# text'', []]"
    by (simp_all add: example_editing_def example_history_def example_shown_def
          example_cached_def example_meta_def ArticleMeta.defs ArticleHistoryItem.defs)
qed

text \<open>
  The statement at work on the history of three articles with the article 1 shown and
  its markup \<open># text\<close> cached: the edit saved is \<open>Hello\<close>, the proofread text is \<open>Hi\<close>;
  both are plain text, which the renderer (with no later pass) leaves as it is.
\<close>

theorem edits_clear_cache_witness:
  "caches_ok (\<lambda>j. True) id
     (snd (saveEdit (\<lambda>j. True) id (js ''Hello'') None Completed True Completed True example_editing)) \<and>
   map markdown (articles
     (snd (saveEdit (\<lambda>j. True) id (js ''Hello'') None Completed True Completed True example_editing))) =
     [js ''# text'', js ''Hello'', js ''# text''] \<and>
   map html (articles
     (snd (saveEdit (\<lambda>j. True) id (js ''Hello'') None Completed True Completed True example_editing))) =
     [[], js ''Hello'', []] \<and>
   map markdown (articles
     (proofread (\<lambda>j. True) id (Inr (Some (js ''Hi''))) Completed True Completed True example_editing)) =
     [js ''# text'', js ''Hi'', js ''# text''] \<and>
   map html (articles
     (proofread (\<lambda>j. True) id (Inr (Some (js ''Hi''))) Completed True Completed True example_editing)) =
     [[], js ''Hi'', []]"
proof -
  have r1: "renderMarkdownToHtml (\<lambda>j. True) id (js ''Hello'') = Inr (js ''Hello'')"
    using render_plain_text [of "js ''Hello''" "\<lambda>j. True" id] by (simp add: js_def)
  have r2: "renderMarkdownToHtml (\<lambda>j. True) id (js ''Hi'') = Inr (js ''Hi'')"
    using render_plain_text [of "js ''Hi''" "\<lambda>j. True" id] by (simp add: js_def)
  note t = edits_clear_cache [where json_ok = "\<lambda>j. True" and later_passes = id and
      st = example_editing and newMarkdown = "js ''Hello''" and analysed = None and
      saved_first = Completed and writable_first = True and saved_again = Completed and writable_again = True and
      response = "Inr (Some (js ''Hi''))"]
  note inv = t [THEN conjunct1, THEN mp, OF example_editing_facts(1), THEN conjunct1]
  have at: "currentArticle example_editing = Some example_shown \<and>
      findIndex (\<lambda>a. article_id a = article_id example_shown) (articles example_editing) = Some (Suc 0)"
    using example_editing_facts(2,3) by (rule conjI)
  note both = t [THEN conjunct2, THEN spec [where x = example_shown],
      THEN spec [where x = "Suc 0"], THEN mp, OF at]
  note saved = both [THEN conjunct1, unfolded Let_def r1]
  have key: "apiKey example_editing = Some (js ''secret'') \<and> js ''secret'' \<noteq> [] \<and>
      trim (js ''Hi'') \<noteq> []"
    by (simp add: example_editing_facts(4) trim_def trimStart_def trimEnd_def is_space_def js_def)
  note proofed = both [THEN conjunct2, THEN spec [where x = "js ''secret''"],
      THEN spec [where x = "js ''Hi''"], THEN mp, OF key, unfolded Let_def r2]
  have fields: "markdown (itemWithoutImages b) = markdown b" "html (itemWithoutImages b) = html b"
    for b :: ArticleHistoryItem
    by (simp_all add: itemWithoutImages_def ArticleMeta.truncate_def)
  have m1: "map markdown (articles
     (snd (saveEdit (\<lambda>j. True) id (js ''Hello'') None Completed True Completed True example_editing))) =
     [js ''# text'', js ''Hello'', js ''# text'']"
    unfolding saved using example_editing_facts(5)
    by (simp add: map_update fields)
  have h1: "map html (articles
     (snd (saveEdit (\<lambda>j. True) id (js ''Hello'') None Completed True Completed True example_editing))) =
     [[], js ''Hello'', []]"
    unfolding saved using example_editing_facts(6)
    by (simp add: map_update fields)
  have m2: "map markdown (articles
     (proofread (\<lambda>j. True) id (Inr (Some (js ''Hi''))) Completed True Completed True example_editing)) =
     [js ''# text'', js ''Hi'', js ''# text'']"
    unfolding proofed using example_editing_facts(5)
    by (simp add: map_update fields)
  have h2: "map html (articles
     (proofread (\<lambda>j. True) id (Inr (Some (js ''Hi''))) Completed True Completed True example_editing)) =
     [[], js ''Hi'', []]"
    unfolding proofed using example_editing_facts(6)
    by (simp add: map_update fields)
  from inv m1 h1 m2 h2 show ?thesis by (intro conjI)
qed

section \<open>Fallback of the creative-direction stage\<close>

lemma finalizeArticle_direction:
  "fst (finalizeArticle json_ok later_passes saved deleted writable saved2 writable2 parts st) = Inr item \<Longrightarrow>
   creativeDirection item = selectedDirection st"
  by (auto simp: finalizeArticle_def newItem_def split: prod.splits sum.splits)

lemma example_first_run_state:
  "selectedDirection example_first_run = Some example_direction"
  "selectedOutline example_first_run = Some example_outline"
  "apiKey example_first_run = Some (js ''secret'')"
  "map article_id (articles example_first_run) = [1]"
  "map creativeDirection (articles example_first_run) = [Some example_direction]"
proof -
  have r: "renderMarkdownToHtml (\<lambda>j. True) id (js ''Hello'') = Inr (js ''Hello'')"
    using render_plain_text [of "js ''Hello''" "\<lambda>j. True" id] by (simp add: js_def)
  have k: "getGenAIClient (Some (js ''secret'')) = Inr (js ''secret'')"
    by (simp add: getGenAIClient_def js_def)
  have st: "example_first_run =
      snd (finalizeArticle (\<lambda>j. True) id Completed Completed True Completed True (example_parts 1)
             (example_start\<lparr>selectedOutline := Some example_outline,
                            suggestedDirections := [example_direction],
                            selectedDirection := Some example_direction\<rparr>))"
    by (simp add: example_first_run_def generateArticleAssemblyLine_def
          generateCreativeDirections_def selectDirection_def selectOutline_def example_start_def k)
  show "selectedDirection example_first_run = Some example_direction"
    "selectedOutline example_first_run = Some example_outline"
    "apiKey example_first_run = Some (js ''secret'')"
    "map article_id (articles example_first_run) = [1]"
    "map creativeDirection (articles example_first_run) = [Some example_direction]"
    unfolding st
    by (simp_all add: finalizeArticle_def addArticleToHistory_def saveImagesToDb_def
          saveArticlesToStorage_def renderArticle_def updateArticleInHistory_def newItem_def
          example_parts_def example_start_def itemWithoutImages_def ArticleMeta.truncate_def
          Let_def r)
qed

text \<open>
  C7. The fallback of the creative-direction stage starts the assembly without touching
  \<open>selectedDirection\<close>, and the assembly writes that variable into the new article
  (\<open>creativeDirection: selectedDirection ?? undefined\<close>). The variable is cleared only by
  the button back to the outlines. So after a run in which a direction was chosen, a run
  whose creative-direction stage fails gives an article that carries the direction of the
  earlier run, where the claim asks for an article without creative direction. Had the
  variable been cleared first, as the button back to the outlines does, the article
  would carry none.
\<close>

theorem stale_direction_after_fallback:
  "selectedDirection example_start = None \<and>
   map article_id (articles example_second_run) = [2, 1] \<and>
   map creativeDirection (articles example_second_run) =
     [Some example_direction, Some example_direction] \<and>
   map_option creativeDirection (currentArticle example_second_run) =
     Some (Some example_direction) \<and>
   map creativeDirection
     (articles (generateCreativeDirections (\<lambda>j. True) id Completed Completed True Completed True
        (Inl (Rejected 0)) (Inr (example_parts 2))
        (selectOutline example_outline (backToOutlines example_first_run)))) =
     [None, Some example_direction]"
proof -
  have r: "renderMarkdownToHtml (\<lambda>j. True) id (js ''Hello'') = Inr (js ''Hello'')"
    using render_plain_text [of "js ''Hello''" "\<lambda>j. True" id] by (simp add: js_def)
  have k: "getGenAIClient (Some (js ''secret'')) = Inr (js ''secret'')"
    by (simp add: getGenAIClient_def js_def)
  note f = example_first_run_state
  have len: "length (articles example_first_run) = 1"
    using f(4) by (metis length_map list.size(3,4) One_nat_def add.left_neutral)
  have a: "selectedDirection example_start = None" by (simp add: example_start_def)
  have b: "map article_id (articles example_second_run) = [2, 1]"
    using f len
    by (simp add: example_second_run_def generateCreativeDirections_def k
          generateArticleAssemblyLine_def selectOutline_def finalizeArticle_def
          addArticleToHistory_def saveImagesToDb_def saveArticlesToStorage_def renderArticle_def
          updateArticleInHistory_def newItem_def example_parts_def itemWithoutImages_def
          ArticleMeta.truncate_def Let_def r)
  have c: "map creativeDirection (articles example_second_run) =
     [Some example_direction, Some example_direction]"
    using f len
    by (simp add: example_second_run_def generateCreativeDirections_def k
          generateArticleAssemblyLine_def selectOutline_def finalizeArticle_def
          addArticleToHistory_def saveImagesToDb_def saveArticlesToStorage_def renderArticle_def
          updateArticleInHistory_def newItem_def example_parts_def itemWithoutImages_def
          ArticleMeta.truncate_def Let_def r)
  have d: "map_option creativeDirection (currentArticle example_second_run) =
     Some (Some example_direction)"
    using f len
    by (simp add: example_second_run_def generateCreativeDirections_def k
          generateArticleAssemblyLine_def selectOutline_def finalizeArticle_def
          addArticleToHistory_def saveImagesToDb_def saveArticlesToStorage_def renderArticle_def
          updateArticleInHistory_def newItem_def example_parts_def itemWithoutImages_def
          ArticleMeta.truncate_def Let_def r)
  have e: "map creativeDirection
     (articles (generateCreativeDirections (\<lambda>j. True) id Completed Completed True Completed True
        (Inl (Rejected 0)) (Inr (example_parts 2))
        (selectOutline example_outline (backToOutlines example_first_run)))) =
     [None, Some example_direction]"
    using f len
    by (simp add: generateCreativeDirections_def k backToOutlines_def
          generateArticleAssemblyLine_def selectOutline_def finalizeArticle_def
          addArticleToHistory_def saveImagesToDb_def saveArticlesToStorage_def renderArticle_def
          updateArticleInHistory_def newItem_def example_parts_def itemWithoutImages_def
          ArticleMeta.truncate_def Let_def r)
  from a b c d e show ?thesis by (intro conjI)
qed
end
